theory Spec2Isabelle
  imports Complex_Main "HOL-Library.AList" "HOL-Library.Word"
begin

section \<open>V2V simulation: interference graph, vehicle motion and tick driver\<close>

text \<open>
  A shallow embedding of the simulation core of the V2V simulator
  (\<^verbatim>\<open>interference_graph.cpp\<close>, \<^verbatim>\<open>vehicule.cpp\<close>, \<^verbatim>\<open>simulator.cpp\<close>,
  \<^verbatim>\<open>graph_builder.cpp\<close>).

  Conventions of the embedding:
  \<^item> a C++ \<^verbatim>\<open>double\<close> is a \<^typ>\<open>real\<close>: no rounding, no NaN, no infinities; the
    heading arithmetic of \<^verbatim>\<open>Vehicule::update\<close> is the exception: there every operation
    is rounded as binary64 rounds it, since whether the heading stays below 360 is decided
    by the rounding of an addition;
  \<^item> a vehicle id (\<^verbatim>\<open>int\<close>) is an \<^typ>\<open>int\<close>; ids are only compared, never computed with;
  \<^item> a \<^verbatim>\<open>std::unordered_set<int>\<close> is an \<^typ>\<open>int list\<close> without repetitions, in
    some iteration order; a \<^verbatim>\<open>std::unordered_map<int, T>\<close> is an association list
    in some iteration order, \<^verbatim>\<open>find\<close> being \<^const>\<open>map_of\<close> and \<^verbatim>\<open>m[k] = v\<close> being
    \<^const>\<open>AList.update\<close>;
  \<^item> the \<^verbatim>\<open>int\<close> counter of distance comparisons is a \<^typ>\<open>32 word\<close>, so that
    \<^verbatim>\<open>comparisons++\<close> wraps around.
\<close>

section \<open>The program\<close>

subsection \<open>Tick driver: the time step of \<^verbatim>\<open>Simulator::onTick\<close>\<close>

record Simulator =
  m_tickIntervalMs :: int
  m_speedMultiplier :: real

text \<open>
  \<^verbatim>\<open>double deltaTime = m_elapsed.restart() / 1000.0; deltaTime *= m_speedMultiplier;\<close>
  The value read from the elapsed timer (milliseconds since the previous restart) is the
  argument \<open>elapsedMs\<close>. The result is the value handed to every \<^verbatim>\<open>Vehicule::update\<close>
  of the tick and emitted with \<^verbatim>\<open>ticked\<close>.
\<close>

definition onTick_deltaTime :: "Simulator \<Rightarrow> int \<Rightarrow> real" where
  "onTick_deltaTime sim elapsedMs =
     (let deltaTime = real_of_int elapsedMs / 1000;
          deltaTime = deltaTime * m_speedMultiplier sim
      in deltaTime)"

subsection \<open>The interference graph\<close>

type_synonym IdSet = "int list"
type_synonym IdMap = "(int \<times> IdSet) list"

text \<open>
  The members of \<^verbatim>\<open>InterferenceGraph\<close>. The spatial grid itself
  (\<^verbatim>\<open>spatial_grid.cpp\<close>) is not part of the sources at hand: what the builder
  asks of it is passed as an argument where it is used. \<^verbatim>\<open>m_vehicleMap\<close> is
  cleared and refilled by every build and read by that build only; it is a local value
  of \<open>buildGraph\<close> below. The two \<^verbatim>\<open>double\<close> statistics (average candidates, wall
  clock time) are left out.
\<close>

record InterferenceGraph =
  m_adjacencyList :: IdMap
  m_transitiveClosure :: IdMap
  m_useSpatialGrid :: bool
  m_gridInitialized :: bool
  m_computeTransitive :: bool
  m_lastComparisons :: "32 word"

text \<open>The constructor: grid optimisation on, grid not initialised, no closure.\<close>

definition InterferenceGraph_new :: InterferenceGraph where
  "InterferenceGraph_new =
     \<lparr>m_adjacencyList = [], m_transitiveClosure = [], m_useSpatialGrid = True,
      m_gridInitialized = False, m_computeTransitive = False, m_lastComparisons = 0\<rparr>"

text \<open>
  The setter of \<^verbatim>\<open>m_computeTransitive\<close>.
\<close>

definition enableTransitiveClosure :: "bool \<Rightarrow> InterferenceGraph \<Rightarrow> InterferenceGraph" where
  "enableTransitiveClosure enable g = g\<lparr>m_computeTransitive := enable\<rparr>"

text \<open>
  \<^verbatim>\<open>VehicleSnapshot\<close>: a copy of what the builder needs of a vehicle.
\<close>

record VehicleSnapshot =
  id_s :: int
  lon :: real
  lat :: real
  transmissionRange :: real
  microAntennaId :: int

text \<open>
  \<^verbatim>\<open>vehiclesPerAntenna\<close> maps a micro antenna to the indices (into the snapshot
  vector) of its vehicles; \<^verbatim>\<open>neighborAntennas\<close> maps it to the ids of its neighbour
  antennas (a \<^verbatim>\<open>std::set<int>\<close>, here a list in iteration order).
\<close>

record AntennaNeighborhood =
  vehiclesPerAntenna :: "(int \<times> int list) list"
  neighborAntennas :: "(int \<times> int list) list"

text \<open>\<^verbatim>\<open>m_adjacencyList[a].insert(b)\<close>: \<^verbatim>\<open>operator[]\<close> creates a missing entry.\<close>

definition adjInsert :: "int \<Rightarrow> int \<Rightarrow> IdMap \<Rightarrow> IdMap" where
  "adjInsert a b adj =
     AList.update a (List.insert b (case map_of adj a of None \<Rightarrow> [] | Some s \<Rightarrow> s)) adj"

text \<open>
  The test and the two insertions that every builder performs on a pair:
  \<^verbatim>\<open>if (distance <= r1 && distance <= r2) { adj[id1].insert(id2); adj[id2].insert(id1); }\<close>
\<close>

definition connectIfInRange ::
  "real \<Rightarrow> real \<Rightarrow> real \<Rightarrow> int \<Rightarrow> int \<Rightarrow> IdMap \<Rightarrow> IdMap" where
  "connectIfInRange distance range1 range2 id1 id2 adj =
     (if distance \<le> range1 \<and> distance \<le> range2
      then adjInsert id2 id1 (adjInsert id1 id2 adj)
      else adj)"

text \<open>The distance of the snapshot builder, \<open>v1\<close> being the first vehicle of the pair.\<close>

definition snapshotDistance :: "VehicleSnapshot \<Rightarrow> VehicleSnapshot \<Rightarrow> real" where
  "snapshotDistance v1 v2 =
     (let dLat = (lat v2 - lat v1) * 111000;
          dLon = (lon v2 - lon v1) * 111000 * cos (lat v1 * pi / 180)
      in sqrt (dLat * dLat + dLon * dLon))"

text \<open>
  One comparison of the snapshot builder. The state of the loops is the adjacency map
  and the counter \<^verbatim>\<open>comparisons\<close>.
\<close>

definition compareSnapshots ::
  "VehicleSnapshot \<Rightarrow> VehicleSnapshot \<Rightarrow> IdMap \<times> 32 word \<Rightarrow> IdMap \<times> 32 word" where
  "compareSnapshots v1 v2 st =
     (case st of (adj, comparisons) \<Rightarrow>
        (connectIfInRange (snapshotDistance v1 v2) (transmissionRange v1) (transmissionRange v2)
           (id_s v1) (id_s v2) adj,
         comparisons + 1))"

text \<open>
  \<^verbatim>\<open>size_t idx = vehicleIndices[i]; if (idx >= snapshots.size()) continue;\<close>
  The indices are stored as \<^verbatim>\<open>int\<close>; a negative one converts to a \<^verbatim>\<open>size_t\<close> beyond
  every vector size and is skipped as well.
\<close>

definition validIndex :: "VehicleSnapshot list \<Rightarrow> int \<Rightarrow> bool" where
  "validIndex snapshots idx = (0 \<le> idx \<and> nat idx < length snapshots)"

text \<open>The inner loops: \<open>v1\<close> against every valid index of a list.\<close>

fun compareWithIndices ::
  "VehicleSnapshot list \<Rightarrow> VehicleSnapshot \<Rightarrow> int list \<Rightarrow> IdMap \<times> 32 word \<Rightarrow> IdMap \<times> 32 word" where
  "compareWithIndices snapshots v1 [] st = st"
| "compareWithIndices snapshots v1 (idx2 # rest) st =
     (if \<not> validIndex snapshots idx2 then compareWithIndices snapshots v1 rest st
      else compareWithIndices snapshots v1 rest
             (compareSnapshots v1 (snapshots ! nat idx2) st))"

text \<open>Step 1 of an antenna: its vehicles among themselves, \<open>j\<close> from \<open>i + 1\<close>.\<close>

fun compareSameAntenna ::
  "VehicleSnapshot list \<Rightarrow> int list \<Rightarrow> IdMap \<times> 32 word \<Rightarrow> IdMap \<times> 32 word" where
  "compareSameAntenna snapshots [] st = st"
| "compareSameAntenna snapshots (idx1 # rest) st =
     (if \<not> validIndex snapshots idx1 then compareSameAntenna snapshots rest st
      else compareSameAntenna snapshots rest
             (compareWithIndices snapshots (snapshots ! nat idx1) rest st))"

text \<open>Step 2 for one neighbour antenna: every vehicle here against every vehicle there.\<close>

fun compareAcrossAntennas ::
  "VehicleSnapshot list \<Rightarrow> int list \<Rightarrow> int list \<Rightarrow> IdMap \<times> 32 word \<Rightarrow> IdMap \<times> 32 word" where
  "compareAcrossAntennas snapshots [] neighborVehicles st = st"
| "compareAcrossAntennas snapshots (idx1 # rest) neighborVehicles st =
     (if \<not> validIndex snapshots idx1
      then compareAcrossAntennas snapshots rest neighborVehicles st
      else compareAcrossAntennas snapshots rest neighborVehicles
             (compareWithIndices snapshots (snapshots ! nat idx1) neighborVehicles st))"

text \<open>
  Step 2: the neighbour antennas of \<open>antennaId\<close>, those with a larger id and with
  vehicles only.
\<close>

fun compareNeighborAntennas ::
  "VehicleSnapshot list \<Rightarrow> AntennaNeighborhood \<Rightarrow> int \<Rightarrow> int list \<Rightarrow> int list
     \<Rightarrow> IdMap \<times> 32 word \<Rightarrow> IdMap \<times> 32 word" where
  "compareNeighborAntennas snapshots info antennaId vehicleIndices [] st = st"
| "compareNeighborAntennas snapshots info antennaId vehicleIndices (neighborAntennaId # rest) st =
     (if neighborAntennaId \<le> antennaId
      then compareNeighborAntennas snapshots info antennaId vehicleIndices rest st
      else
        (case map_of (vehiclesPerAntenna info) neighborAntennaId of
           None \<Rightarrow> compareNeighborAntennas snapshots info antennaId vehicleIndices rest st
         | Some neighborVehicles \<Rightarrow>
             compareNeighborAntennas snapshots info antennaId vehicleIndices rest
               (compareAcrossAntennas snapshots vehicleIndices neighborVehicles st)))"

text \<open>The loop over the entries of \<^verbatim>\<open>vehiclesPerAntenna\<close>.\<close>

fun compareAntennas ::
  "VehicleSnapshot list \<Rightarrow> AntennaNeighborhood \<Rightarrow> (int \<times> int list) list
     \<Rightarrow> IdMap \<times> 32 word \<Rightarrow> IdMap \<times> 32 word" where
  "compareAntennas snapshots info [] st = st"
| "compareAntennas snapshots info ((antennaId, vehicleIndices) # rest) st =
     (let st = compareSameAntenna snapshots vehicleIndices st;
          st = (case map_of (neighborAntennas info) antennaId of
                  None \<Rightarrow> st
                | Some neighborIds \<Rightarrow>
                    compareNeighborAntennas snapshots info antennaId vehicleIndices neighborIds st)
      in compareAntennas snapshots info rest st)"

text \<open>The fallback: every snapshot against every later one.\<close>

fun compareWithRest ::
  "VehicleSnapshot \<Rightarrow> VehicleSnapshot list \<Rightarrow> IdMap \<times> 32 word \<Rightarrow> IdMap \<times> 32 word" where
  "compareWithRest v1 [] st = st"
| "compareWithRest v1 (v2 # rest) st = compareWithRest v1 rest (compareSnapshots v1 v2 st)"

text \<open>
  The outer loop of the fallback.
\<close>

fun compareAllPairs ::
  "VehicleSnapshot list \<Rightarrow> IdMap \<times> 32 word \<Rightarrow> IdMap \<times> 32 word" where
  "compareAllPairs [] st = st"
| "compareAllPairs (v1 # rest) st = compareAllPairs rest (compareWithRest v1 rest st)"

text \<open>\<^verbatim>\<open>for (snap : snapshots) m_adjacencyList[snap.id] = unordered_set<int>();\<close>\<close>

definition initAdjacency :: "VehicleSnapshot list \<Rightarrow> IdMap \<Rightarrow> IdMap" where
  "initAdjacency snapshots adj = fold (\<lambda>snap. AList.update (id_s snap) []) snapshots adj"

subsection \<open>Transitive closure by breadth-first search\<close>

text \<open>
  The inner loop of \<^verbatim>\<open>bfsReachable\<close>: every neighbour not yet visited is marked and
  queued.
\<close>

fun visitNeighbors :: "int list \<Rightarrow> IdSet \<times> int list \<Rightarrow> IdSet \<times> int list" where
  "visitNeighbors [] (visited, toVisit) = (visited, toVisit)"
| "visitNeighbors (neighborId # rest) (visited, toVisit) =
     (if neighborId \<notin> set visited
      then visitNeighbors rest (List.insert neighborId visited, toVisit @ [neighborId])
      else visitNeighbors rest (visited, toVisit))"

text \<open>
  The \<^verbatim>\<open>while (!toVisit.empty())\<close> loop. It ends because every turn either marks a
  vertex of the finite graph or shortens the queue.
\<close>

function bfsLoop :: "IdMap \<Rightarrow> IdSet \<Rightarrow> int list \<Rightarrow> IdSet" where
  "bfsLoop adj visited [] = visited"
| "bfsLoop adj visited (currentId # toVisit) =
     (case map_of adj currentId of
        None \<Rightarrow> bfsLoop adj visited toVisit
      | Some neighbors \<Rightarrow>
          (case visitNeighbors neighbors (visited, toVisit) of
             (visited', toVisit') \<Rightarrow> bfsLoop adj visited' toVisit'))"
  by pat_completeness auto
termination
proof (relation "measure (\<lambda>(adj, visited, toVisit).
          2 * card (\<Union>(set ` snd ` set adj) - set visited) + length toVisit)")
  show "wf (measure (\<lambda>(adj, visited, toVisit).
          2 * card (\<Union>(set ` snd ` set adj) - set visited) + length toVisit))"
    by simp
next
  fix adj :: IdMap and visited toVisit :: "int list" and currentId :: int
  show "((adj, visited, toVisit), (adj, visited, currentId # toVisit))
        \<in> measure (\<lambda>(adj, visited, toVisit).
          2 * card (\<Union>(set ` snd ` set adj) - set visited) + length toVisit)"
    by simp
next
  fix adj :: IdMap and visited toVisit neighbors visited' toVisit' :: "int list"
    and currentId :: int
  assume look: "map_of adj currentId = Some neighbors"
    and res: "(visited', toVisit') = visitNeighbors neighbors (visited, toVisit)"
  define U where "U = \<Union>(set ` snd ` set adj)"
  have finU: "finite U" unfolding U_def by simp
  have "(currentId, neighbors) \<in> set adj" using look by (rule map_of_SomeD)
  then have sub: "set neighbors \<subseteq> U" unfolding U_def by force
  have step: "set ns \<subseteq> U \<Longrightarrow>
      2 * card (U - set (fst (visitNeighbors ns (vis, q)))) + length (snd (visitNeighbors ns (vis, q)))
        \<le> 2 * card (U - set vis) + length q" for ns vis q
  proof (induction ns arbitrary: vis q)
    case Nil
    then show ?case by simp
  next
    case (Cons n ns)
    show ?case
    proof (cases "n \<in> set vis")
      case True
      then show ?thesis using Cons by simp
    next
      case False
      have nU: "n \<in> U" using Cons.prems by simp
      have "U - set (List.insert n vis) = (U - set vis) - {n}" by auto
      moreover have "n \<in> U - set vis" using nU False by simp
      ultimately have "card (U - set (List.insert n vis)) < card (U - set vis)"
        using finU by (metis card_Diff1_less finite_Diff)
      moreover have "2 * card (U - set (fst (visitNeighbors ns (List.insert n vis, q @ [n]))))
          + length (snd (visitNeighbors ns (List.insert n vis, q @ [n])))
         \<le> 2 * card (U - set (List.insert n vis)) + length (q @ [n])"
        using Cons.IH [of "List.insert n vis" "q @ [n]"] Cons.prems by simp
      ultimately show ?thesis using False by simp
    qed
  qed
  have "2 * card (U - set visited') + length toVisit' \<le> 2 * card (U - set visited) + length toVisit"
    using step [OF sub, of visited toVisit] res [symmetric] by simp
  then show "((adj, visited', toVisit'), (adj, visited, currentId # toVisit))
        \<in> measure (\<lambda>(adj, visited, toVisit).
          2 * card (\<Union>(set ` snd ` set adj) - set visited) + length toVisit)"
    unfolding U_def by simp
qed

text \<open>
  \<^verbatim>\<open>bfsReachable\<close>: the start is marked and queued, the loop runs, and the start is
  erased from the result.
\<close>

definition bfsReachable :: "IdMap \<Rightarrow> int \<Rightarrow> IdSet" where
  "bfsReachable adj startId =
     removeAll startId (bfsLoop adj (List.insert startId []) [startId])"

text \<open>
  \<^verbatim>\<open>computeTransitiveClosure\<close>: the closure map is cleared and gets one entry per
  entry of the adjacency map.
\<close>

definition computeTransitiveClosure :: "InterferenceGraph \<Rightarrow> InterferenceGraph" where
  "computeTransitiveClosure g =
     g\<lparr>m_transitiveClosure :=
         fold (\<lambda>(vehicleId, neighbors). AList.update vehicleId (bfsReachable (m_adjacencyList g) vehicleId))
           (m_adjacencyList g) []\<rparr>"

text \<open>
  The three queries of the graph object.
\<close>

definition canCommunicate :: "InterferenceGraph \<Rightarrow> int \<Rightarrow> int \<Rightarrow> bool" where
  "canCommunicate g id1 id2 =
     (case map_of (m_transitiveClosure g) id1 of
        None \<Rightarrow> False
      | Some reachable \<Rightarrow> id2 \<in> set reachable)"

definition getReachableVehicles :: "InterferenceGraph \<Rightarrow> int \<Rightarrow> IdSet" where
  "getReachableVehicles g vehicleId =
     (case map_of (m_transitiveClosure g) vehicleId of Some reachable \<Rightarrow> reachable | None \<Rightarrow> [])"

definition getDirectNeighbors :: "InterferenceGraph \<Rightarrow> int \<Rightarrow> IdSet" where
  "getDirectNeighbors g vehicleId =
     (case map_of (m_adjacencyList g) vehicleId of Some neighbors \<Rightarrow> neighbors | None \<Rightarrow> [])"

subsection \<open>Building from snapshots\<close>

text \<open>
  The test \<^verbatim>\<open>antennaInfo != nullptr && !antennaInfo->vehiclesPerAntenna.empty()\<close>.
\<close>

definition usesAntennas :: "AntennaNeighborhood option \<Rightarrow> bool" where
  "usesAntennas antennaInfo =
     (case antennaInfo of None \<Rightarrow> False | Some info \<Rightarrow> vehiclesPerAntenna info \<noteq> [])"

text \<open>
  \<^verbatim>\<open>buildGraphFromSnapshots\<close>. The antenna information is a pointer that may be
  null: an \<open>option\<close>. The index \<^verbatim>\<open>idToIndex\<close> that the antenna branch fills is never
  read and is left out.
\<close>

definition buildGraphFromSnapshots ::
  "InterferenceGraph \<Rightarrow> VehicleSnapshot list \<Rightarrow> AntennaNeighborhood option \<Rightarrow> InterferenceGraph" where
  "buildGraphFromSnapshots g snapshots antennaInfo =
     (let g = g\<lparr>m_adjacencyList := [], m_transitiveClosure := []\<rparr> in
      if snapshots = [] then g
      else
        let adj = initAdjacency snapshots (m_adjacencyList g);
            st = (case antennaInfo of
                    Some info \<Rightarrow>
                      if vehiclesPerAntenna info \<noteq> []
                      then compareAntennas snapshots info (vehiclesPerAntenna info) (adj, 0)
                      else compareAllPairs snapshots (adj, 0)
                  | None \<Rightarrow> compareAllPairs snapshots (adj, 0));
            g = g\<lparr>m_adjacencyList := fst st\<rparr>;
            g = (if m_computeTransitive g then computeTransitiveClosure g else g)
        in g\<lparr>m_lastComparisons := snd st\<rparr>)"

subsection \<open>The antenna information of the driver\<close>

text \<open>
  The antenna information as the driver assembles it in
  \<^verbatim>\<open>Simulator::startGraphCalculation\<close>: the index of every snapshot with a non-negative
  micro antenna id is appended to the list of that antenna,
  \<^verbatim>\<open>vehiclesPerAntenna[antennaId].push_back(i)\<close>. The neighbour sets are copied from the
  spatial grid and are an argument here.
\<close>

fun assignIndices ::
  "VehicleSnapshot list \<Rightarrow> nat \<Rightarrow> (int \<times> int list) list \<Rightarrow> (int \<times> int list) list" where
  "assignIndices [] i vpa = vpa"
| "assignIndices (snap # rest) i vpa =
     (let antennaId = microAntennaId snap in
      if antennaId \<ge> 0
      then assignIndices rest (Suc i)
             (AList.update antennaId
                ((case map_of vpa antennaId of None \<Rightarrow> [] | Some l \<Rightarrow> l) @ [int i]) vpa)
      else assignIndices rest (Suc i) vpa)"

definition assembleAntennaInfo ::
  "VehicleSnapshot list \<Rightarrow> (int \<times> int list) list \<Rightarrow> AntennaNeighborhood" where
  "assembleAntennaInfo snapshots neighborMicroIds =
     \<lparr>vehiclesPerAntenna = assignIndices snapshots 0 [], neighborAntennas = neighborMicroIds\<rparr>"

subsection \<open>Spatial grid configuration\<close>

text \<open>
  The body of \<^verbatim>\<open>SpatialGrid::initialize\<close> is not part of the sources at hand; the
  two functions below return, next to the updated graph object, the pair
  \<open>(numMacro, numMicro)\<close> they pass to it, or \<open>None\<close> when they return before the call.
  The argument \<open>n\<close> is \<^verbatim>\<open>vehicles.size()\<close>.
\<close>

definition initializeSpatialGrid ::
  "InterferenceGraph \<Rightarrow> nat \<Rightarrow> int \<Rightarrow> int \<Rightarrow> InterferenceGraph \<times> (int \<times> int) option" where
  "initializeSpatialGrid g n numMacro numMicro =
     (if \<not> m_useSpatialGrid g \<or> n < 20 then (g, None)
      else if m_gridInitialized g then (g, None)
      else
        let numMacro =
              (if numMacro = 0
               then (let m = 10; m = (if n > 500 then 20 else m); m = (if n > 2000 then 30 else m)
                     in m)
               else numMacro);
            numMicro =
              (if numMicro = 0
               then (let m = 10; m = (if n > 500 then 15 else m); m = (if n > 2000 then 20 else m)
                     in m)
               else numMicro)
        in (g\<lparr>m_gridInitialized := True\<rparr>, Some (numMacro, numMicro)))"

text \<open>
  \<^verbatim>\<open>reinitializeSpatialGrid\<close>: the counts go to the grid as they are.
\<close>

definition reinitializeSpatialGrid ::
  "InterferenceGraph \<Rightarrow> nat \<Rightarrow> int \<Rightarrow> int \<Rightarrow> InterferenceGraph \<times> (int \<times> int) option" where
  "reinitializeSpatialGrid g n numMacro numMicro =
     (if \<not> m_useSpatialGrid g \<or> n < 20 then (g, None)
      else (g\<lparr>m_gridInitialized := True\<rparr>, Some (numMacro, numMicro)))"

text \<open>
  \<^verbatim>\<open>Simulator::placeAntennas\<close>: nothing without vehicles, otherwise the forced
  reinitialisation with the numbers given.
\<close>

definition placeAntennas ::
  "InterferenceGraph \<Rightarrow> nat \<Rightarrow> int \<Rightarrow> int \<Rightarrow> InterferenceGraph \<times> (int \<times> int) option" where
  "placeAntennas g n numLarge numSmall =
     (if n = 0 then (g, None) else reinitializeSpatialGrid g n numLarge numSmall)"

subsection \<open>The road graph\<close>

text \<open>
  The road graph is a directed graph of the Boost graph library whose declaration
  (\<^verbatim>\<open>graph_types.h\<close>) is not part of the sources at hand; the model follows its uses.
  A vertex descriptor is an index into the vertex properties (\<^verbatim>\<open>id\<close>, \<^verbatim>\<open>lat\<close>,
  \<^verbatim>\<open>lon\<close>). An edge descriptor is the edge itself: what \<^verbatim>\<open>boost::source\<close> and
  \<^verbatim>\<open>boost::target\<close> return for it and its properties \<^verbatim>\<open>distance\<close> and \<^verbatim>\<open>type\<close>.
\<close>

record VertexData =
  id_n :: int
  lat_n :: real
  lon_n :: real

record EdgeData =
  source :: nat
  target :: nat
  distance :: real
  type_e :: string

record RoadGraph =
  vertexData :: "VertexData list"
  edgeList :: "EdgeData list"

text \<open>
  \<^verbatim>\<open>boost::out_edges\<close> and \<^verbatim>\<open>boost::vertices\<close>.
\<close>

definition out_edges :: "RoadGraph \<Rightarrow> nat \<Rightarrow> EdgeData list" where
  "out_edges graph v = filter (\<lambda>e. source e = v) (edgeList graph)"

definition vertices :: "RoadGraph \<Rightarrow> nat list" where
  "vertices graph = [0 ..< length (vertexData graph)]"

subsection \<open>Arithmetic on binary64 numbers\<close>

text \<open>
  The rounding of IEEE 754 binary64 in its default mode, which is what an operation on
  \<^verbatim>\<open>double\<close> applies to its exact result: to the nearest number with a significand of 53
  bits, and of two nearest ones to the one with the even significand. A \<^verbatim>\<open>double\<close> is
  the real number it stands for. \<open>roundHalfEven\<close> rounds to the nearest integer, a tie to
  the even one.
\<close>

definition roundHalfEven :: "real \<Rightarrow> int" where
  "roundHalfEven q =
     (let n = \<lfloor>q\<rfloor>; r = q - of_int n
      in if r < 1 / 2 then n else if r > 1 / 2 then n + 1 else if even n then n else n + 1)"

text \<open>
  The numbers from \<open>2 powi e\<close> to \<open>2 powi (e + 1)\<close> are \<open>2 powi (e - 52)\<close> apart; below
  \<open>2 powi (- 1022)\<close>, the smallest normal number, the spacing stays that of the last
  binade. Overflow is left out: the model has no infinities, and a result beyond the
  largest finite number is rounded like the others. The heading arithmetic stays far
  from both ends of the range.
\<close>

definition round64 :: "real \<Rightarrow> real" where
  "round64 x =
     (if x = 0 then 0
      else
        let e = max \<lfloor>log 2 \<bar>x\<bar>\<rfloor> (- 1022);
            ulp = 2 powi (e - 52)
        in of_int (roundHalfEven (x / ulp)) * ulp)"

text \<open>The four operations on \<^verbatim>\<open>double\<close>: the exact result, rounded.\<close>

definition add64 :: "real \<Rightarrow> real \<Rightarrow> real" where
  "add64 a b = round64 (a + b)"

definition sub64 :: "real \<Rightarrow> real \<Rightarrow> real" where
  "sub64 a b = round64 (a - b)"

definition mul64 :: "real \<Rightarrow> real \<Rightarrow> real" where
  "mul64 a b = round64 (a * b)"

definition div64 :: "real \<Rightarrow> real \<Rightarrow> real" where
  "div64 a b = round64 (a / b)"

text \<open>
  \<^verbatim>\<open>#define M_PI 3.14159265358979323846\<close>: a decimal literal is the \<^verbatim>\<open>double\<close> nearest
  to it.
\<close>

definition M_PI :: real where
  "M_PI = round64 (314159265358979323846 / 10 ^ 20)"

subsection \<open>Vehicles\<close>

text \<open>
  The members of \<^verbatim>\<open>Vehicule\<close> that the motion model and the graph builders use. The
  constructor leaves \<^verbatim>\<open>nextVertex\<close>, \<^verbatim>\<open>currEdge\<close> and \<^verbatim>\<open>previousVertex\<close>
  uninitialised: in a fresh vehicle they hold any value. The road graph, a reference
  member, is an argument of the functions.
\<close>

record Vehicule =
  id_v :: int
  start :: nat
  goal :: nat
  nextVertex :: nat
  currEdge :: EdgeData
  previousVertex :: nat
  collisionDist :: real
  transmissionRange_v :: real
  speed :: real
  recentVertices :: "nat list"
  stuckCounter :: int
  currVertex :: nat
  edgeLength :: real
  positionOnEdge :: real
  currentHeading :: real
  targetHeading :: real

text \<open>
  Two members that are initialised in the class and never written;
  \<^verbatim>\<open>double headingSmoothingFactor = 0.15\<close> holds the \<^verbatim>\<open>double\<close> nearest to 0.15.
\<close>

definition headingSmoothingFactor :: real where
  "headingSmoothingFactor = round64 (15 / 100)"

definition MAX_HISTORY :: nat where
  "MAX_HISTORY = 8"

text \<open>
  The C library's \<^verbatim>\<open>rand()\<close>: its state is the sequence of numbers it is going to
  return.
\<close>

type_synonym RandState = "nat \<Rightarrow> nat"

definition rand :: "RandState \<Rightarrow> nat \<times> RandState" where
  "rand r = (r 0, \<lambda>n. r (Suc n))"

text \<open>The C library's \<^verbatim>\<open>atan2 (y, x)\<close> on the reals: the angle of the point \<open>(x, y)\<close>.\<close>

definition atan2 :: "real \<Rightarrow> real \<Rightarrow> real" where
  "atan2 y x =
     (if x > 0 then arctan (y / x)
      else if x < 0 then (if y \<ge> 0 then arctan (y / x) + pi else arctan (y / x) - pi)
      else if y > 0 then pi / 2
      else if y < 0 then - pi / 2
      else 0)"

text \<open>
  \<^verbatim>\<open>std::atan2\<close> on \<^verbatim>\<open>double\<close>: the function of the C library, which is not part of the
  program. It is taken to return the \<^verbatim>\<open>double\<close> nearest to the angle.
\<close>

definition atan2_64 :: "real \<Rightarrow> real \<Rightarrow> real" where
  "atan2_64 y x = round64 (atan2 y x)"

text \<open>
  The road classes a vehicle drives on, and whether a vertex has an outgoing edge of one.
\<close>

definition isValidRoad :: "string \<Rightarrow> bool" where
  "isValidRoad t =
     (t \<in> set [''motorway'', ''trunk'', ''primary'', ''secondary'', ''tertiary'',
               ''motorway_link'', ''trunk_link'', ''primary_link'', ''secondary_link'',
               ''tertiary_link'', ''unclassified'', ''road''])"

definition hasValidOutgoingEdge :: "RoadGraph \<Rightarrow> nat \<Rightarrow> bool" where
  "hasValidOutgoingEdge graph v = list_ex (\<lambda>e. isValidRoad (type_e e)) (out_edges graph v)"

text \<open>
  \<^verbatim>\<open>DestReached\<close>: start and goal are swapped and the edge length is reset; the
  position on the edge is not touched.
\<close>

definition DestReached :: "Vehicule \<Rightarrow> Vehicule" where
  "DestReached v = v\<lparr>start := goal v, goal := start v, edgeLength := 0\<rparr>"

text \<open>The default-constructed edge descriptor \<^verbatim>\<open>Edge()\<close>, a placeholder that is never read.\<close>

definition nullEdge :: EdgeData where
  "nullEdge = \<lparr>source = 0, target = 0, distance = 0, type_e = []\<rparr>"

text \<open>
  The first loop of \<^verbatim>\<open>pickNextEdge\<close>: the valid outgoing edges go to the fresh ones,
  to the recently visited ones, or replace the edge back to the previous vertex.
\<close>

fun classifyEdges ::
  "Vehicule \<Rightarrow> EdgeData list \<Rightarrow> EdgeData list \<times> EdgeData list \<times> EdgeData \<times> bool
     \<Rightarrow> EdgeData list \<times> EdgeData list \<times> EdgeData \<times> bool" where
  "classifyEdges v [] acc = acc"
| "classifyEdges v (e # rest) (validEdges, lessPreferredEdges, backEdge, hasBackEdge) =
     (if \<not> isValidRoad (type_e e)
      then classifyEdges v rest (validEdges, lessPreferredEdges, backEdge, hasBackEdge)
      else if target e = previousVertex v
      then classifyEdges v rest (validEdges, lessPreferredEdges, e, True)
      else if target e \<in> set (recentVertices v)
      then classifyEdges v rest (validEdges, lessPreferredEdges @ [e], backEdge, hasBackEdge)
      else classifyEdges v rest (validEdges @ [e], lessPreferredEdges, backEdge, hasBackEdge))"

text \<open>The end of \<^verbatim>\<open>pickNextEdge\<close>: the visit history and the selected edge.\<close>

definition applyEdge :: "EdgeData \<Rightarrow> Vehicule \<Rightarrow> Vehicule" where
  "applyEdge selectedEdge v =
     (let recent = recentVertices v @ [currVertex v];
          recent = (if length recent > MAX_HISTORY then tl recent else recent)
      in v\<lparr>recentVertices := recent,
            currEdge := selectedEdge,
            previousVertex := currVertex v,
            nextVertex := target selectedEdge,
            edgeLength := distance selectedEdge,
            positionOnEdge := 0\<rparr>)"

text \<open>The branch of \<^verbatim>\<open>pickNextEdge\<close> for a vehicle with no usable edge.\<close>

definition reroute :: "RoadGraph \<Rightarrow> Vehicule \<times> RandState \<Rightarrow> Vehicule \<times> RandState" where
  "reroute graph s =
     (case s of (v, r) \<Rightarrow>
        let v = v\<lparr>stuckCounter := stuckCounter v + 1\<rparr>;
            candidateGoals = filter (hasValidOutgoingEdge graph) (vertices graph);
            s = (if stuckCounter v > 3 \<and> candidateGoals \<noteq> []
                 then (case rand r of (x, r) \<Rightarrow>
                         (v\<lparr>goal := candidateGoals ! (x mod length candidateGoals),
                            stuckCounter := 0, recentVertices := []\<rparr>, r))
                 else (v, r))
        in (case s of (v, r) \<Rightarrow>
              (v\<lparr>start := goal v, goal := start v, nextVertex := goal v, edgeLength := 0,
                 previousVertex := currVertex v, recentVertices := []\<rparr>, r)))"

text \<open>
  \<^verbatim>\<open>pickNextEdge\<close>: a fresh edge if there is one, else a recently visited one, else the
  edge back, else the rerouting.
\<close>

definition pickNextEdge :: "RoadGraph \<Rightarrow> Vehicule \<times> RandState \<Rightarrow> Vehicule \<times> RandState" where
  "pickNextEdge graph s =
     (case s of (v, r) \<Rightarrow>
        (case classifyEdges v (out_edges graph (currVertex v)) ([], [], nullEdge, False) of
           (validEdges, lessPreferredEdges, backEdge, hasBackEdge) \<Rightarrow>
             if validEdges \<noteq> [] then
               (case rand r of (x, r) \<Rightarrow>
                  (applyEdge (validEdges ! (x mod length validEdges)) (v\<lparr>stuckCounter := 0\<rparr>), r))
             else if lessPreferredEdges \<noteq> [] then
               (case rand r of (x, r) \<Rightarrow>
                  (applyEdge (lessPreferredEdges ! (x mod length lessPreferredEdges))
                     (v\<lparr>stuckCounter := stuckCounter v + 1\<rparr>), r))
             else if hasBackEdge then
               (applyEdge backEdge (v\<lparr>stuckCounter := stuckCounter v + 1\<rparr>), r)
             else reroute graph (v, r)))"

text \<open>
  \<^verbatim>\<open>getPosition\<close>: the vertex when no edge is selected, else the interpolation along the
  edge with the parameter clamped to \<open>[0, 1]\<close>.
\<close>

definition getPosition :: "RoadGraph \<Rightarrow> Vehicule \<Rightarrow> real \<times> real" where
  "getPosition graph v =
     (if edgeLength v \<le> 0
      then (let vd = vertexData graph ! currVertex v in (lat_n vd, lon_n vd))
      else
        let sd = vertexData graph ! source (currEdge v);
            td = vertexData graph ! target (currEdge v);
            tparam = positionOnEdge v / edgeLength v;
            tparam = (if tparam < 0 then 0 else tparam);
            tparam = (if tparam > 1 then 1 else tparam)
        in (lat_n sd + tparam * (lat_n td - lat_n sd), lon_n sd + tparam * (lon_n td - lon_n sd)))"

text \<open>
  The heading part of \<^verbatim>\<open>update\<close>, for the movement \<open>(dLat, dLon)\<close> of the tick, in the
  arithmetic of \<^verbatim>\<open>double\<close>. The literal \<^verbatim>\<open>1e-10\<close> is the \<^verbatim>\<open>double\<close> nearest to
  \<open>1 / 10 ^ 10\<close>; 180, 360 and 0 are numbers of binary64 themselves. The last test is an
  \<^verbatim>\<open>else if\<close>: it is not applied to the result of \<^verbatim>\<open>currentHeading += 360.0\<close>.
\<close>

definition updateHeading :: "real \<Rightarrow> real \<Rightarrow> Vehicule \<Rightarrow> Vehicule" where
  "updateHeading dLat dLon v =
     (if \<bar>dLat\<bar> > round64 (1 / 10 ^ 10) \<or> \<bar>dLon\<bar> > round64 (1 / 10 ^ 10) then
        let angleRad = atan2_64 dLon dLat;
            target = div64 (mul64 angleRad 180) M_PI;
            target = (if target < 0 then add64 target 360 else target);
            angleDiff = sub64 target (currentHeading v);
            angleDiff = (if angleDiff > 180 then sub64 angleDiff 360
                         else if angleDiff < - 180 then add64 angleDiff 360 else angleDiff);
            heading = add64 (currentHeading v) (mul64 angleDiff headingSmoothingFactor);
            heading = (if heading < 0 then add64 heading 360
                       else if heading \<ge> 360 then sub64 heading 360 else heading)
        in v\<lparr>targetHeading := target, currentHeading := heading\<rparr>
      else v)"

text \<open>
  The loop \<^verbatim>\<open>while (positionOnEdge >= edgeLength)\<close> of \<^verbatim>\<open>update\<close>. On a graph
  without usable edges, or around edges of length zero, the loop need not end: the
  first argument bounds the number of its turns, and \<open>None\<close> is a run that needs more.
\<close>

fun updateLoop ::
  "nat \<Rightarrow> RoadGraph \<Rightarrow> Vehicule \<times> RandState \<Rightarrow> (Vehicule \<times> RandState) option" where
  "updateLoop 0 graph (v, r) = (if positionOnEdge v \<ge> edgeLength v then None else Some (v, r))"
| "updateLoop (Suc n) graph (v, r) =
     (if positionOnEdge v \<ge> edgeLength v then
        let overshoot = positionOnEdge v - edgeLength v;
            v = v\<lparr>previousVertex := currVertex v, currVertex := nextVertex v\<rparr>
        in if currVertex v = goal v then Some (DestReached v, r)
           else (case pickNextEdge graph (v, r) of
                   (v, r) \<Rightarrow> updateLoop n graph (v\<lparr>positionOnEdge := overshoot\<rparr>, r))
      else Some (v, r))"

text \<open>The state in which the vehicle starts to move: an edge is picked if there is none.\<close>

definition beginMove :: "RoadGraph \<Rightarrow> Vehicule \<times> RandState \<Rightarrow> Vehicule \<times> RandState" where
  "beginMove graph s =
     (case s of (v, r) \<Rightarrow> if edgeLength v \<le> 0 then pickNextEdge graph (v, r) else (v, r))"

text \<open>
  \<^verbatim>\<open>positionOnEdge += speed * deltaTime\<close>.
\<close>

definition advance :: "real \<Rightarrow> Vehicule \<Rightarrow> Vehicule" where
  "advance deltaTime v = v\<lparr>positionOnEdge := positionOnEdge v + speed v * deltaTime\<rparr>"

text \<open>The movement of the tick: the position after the advance minus the one before.\<close>

definition movement :: "RoadGraph \<Rightarrow> real \<Rightarrow> Vehicule \<Rightarrow> real \<times> real" where
  "movement graph deltaTime v =
     (case getPosition graph v of
        (prevLat, prevLon) \<Rightarrow>
          (case getPosition graph (advance deltaTime v) of
             (currLat, currLon) \<Rightarrow> (currLat - prevLat, currLon - prevLon)))"

text \<open>\<^verbatim>\<open>Vehicule::update\<close>, with the bound on the turns of its loop.\<close>

definition update ::
  "nat \<Rightarrow> RoadGraph \<Rightarrow> real \<Rightarrow> Vehicule \<times> RandState \<Rightarrow> (Vehicule \<times> RandState) option" where
  "update fuel graph deltaTime s =
     (case s of (v, r) \<Rightarrow>
        if currVertex v = goal v then Some (DestReached v, r)
        else
          (case beginMove graph (v, r) of
             (v, r) \<Rightarrow>
               (case movement graph deltaTime v of
                  (dLat, dLon) \<Rightarrow>
                    updateLoop fuel graph (updateHeading dLat dLon (advance deltaTime v), r))))"

text \<open>A sequence of calls of \<^verbatim>\<open>update\<close>, one per time step of the list.\<close>

fun updates ::
  "nat \<Rightarrow> RoadGraph \<Rightarrow> real list \<Rightarrow> Vehicule \<times> RandState \<Rightarrow> (Vehicule \<times> RandState) option" where
  "updates fuel graph [] s = Some s"
| "updates fuel graph (deltaTime # rest) s =
     (case update fuel graph deltaTime s of
        None \<Rightarrow> None
      | Some s' \<Rightarrow> updates fuel graph rest s')"

subsection \<open>Building from the vehicles\<close>

text \<open>\<^verbatim>\<open>GraphBuilder::distance\<close>: the equirectangular form for small differences, haversine else.\<close>

definition GraphBuilder_distance :: "real \<Rightarrow> real \<Rightarrow> real \<Rightarrow> real \<Rightarrow> real" where
  "GraphBuilder_distance lat1 lon1 lat2 lon2 =
     (let R = 6371000;
          dLat = lat2 - lat1;
          dLon = lon2 - lon1
      in if \<bar>dLat\<bar> < 2 / 100 \<and> \<bar>dLon\<bar> < 2 / 100 then
           let x = dLon * pi / 180 * cos ((lat1 + lat2) / 2 * pi / 180);
               y = dLat * pi / 180
           in R * sqrt (x * x + y * y)
         else
           let dLat = dLat * (pi / 180);
               dLon = dLon * (pi / 180);
               a = sin (dLat / 2) * sin (dLat / 2) +
                   cos (lat1 * pi / 180) * cos (lat2 * pi / 180) * sin (dLon / 2) * sin (dLon / 2);
               c = 2 * atan2 (sqrt a) (sqrt (1 - a))
           in R * c)"

text \<open>
  \<^verbatim>\<open>Vehicule::calculateDist\<close>: the distance of the positions of two vehicles.
\<close>

definition calculateDist :: "RoadGraph \<Rightarrow> Vehicule \<Rightarrow> Vehicule \<Rightarrow> real" where
  "calculateDist graph v from =
     (case getPosition graph v of
        (lat1, lon1) \<Rightarrow>
          (case getPosition graph from of
             (lat2, lon2) \<Rightarrow> GraphBuilder_distance lat1 lon1 lat2 lon2))"

text \<open>The distance, the two range tests and the two insertions of the vehicle builders.\<close>

definition connectVehicles :: "RoadGraph \<Rightarrow> Vehicule \<Rightarrow> Vehicule \<Rightarrow> IdMap \<Rightarrow> IdMap" where
  "connectVehicles graph v1 v2 adj =
     connectIfInRange (calculateDist graph v1 v2) (transmissionRange_v v1) (transmissionRange_v v2)
       (id_v v1) (id_v v2) adj"

text \<open>
  \<^verbatim>\<open>buildGraphClassic\<close>: the vehicles are pointers, a null pointer is \<open>None\<close> and is
  skipped. The inner loop runs over the vehicles after \<open>v1\<close>.
\<close>

fun classicInner ::
  "RoadGraph \<Rightarrow> Vehicule \<Rightarrow> Vehicule option list \<Rightarrow> IdMap \<times> 32 word \<Rightarrow> IdMap \<times> 32 word" where
  "classicInner graph v1 [] st = st"
| "classicInner graph v1 (None # rest) st = classicInner graph v1 rest st"
| "classicInner graph v1 (Some v2 # rest) (adj, comparisons) =
     classicInner graph v1 rest (connectVehicles graph v1 v2 adj, comparisons + 1)"

fun buildGraphClassic ::
  "RoadGraph \<Rightarrow> Vehicule option list \<Rightarrow> IdMap \<times> 32 word \<Rightarrow> IdMap \<times> 32 word" where
  "buildGraphClassic graph [] st = st"
| "buildGraphClassic graph (None # rest) st = buildGraphClassic graph rest st"
| "buildGraphClassic graph (Some v1 # rest) st =
     buildGraphClassic graph rest (classicInner graph v1 rest st)"

text \<open>
  \<^verbatim>\<open>buildGraphWithSpatialGrid\<close>. The grid's \<^verbatim>\<open>getNearbyVehicles\<close> is not part of the
  sources at hand: its answers (after the reassignment of the vehicles, when
  \<^verbatim>\<open>buildGraph\<close> asks for one) are the argument \<open>getNearbyVehicles\<close>. The vehicle map
  holds the non-null vehicles by id.
\<close>

fun gridInner ::
  "RoadGraph \<Rightarrow> (int \<times> Vehicule) list \<Rightarrow> Vehicule \<Rightarrow> int list \<Rightarrow> IdMap \<times> 32 word
     \<Rightarrow> IdMap \<times> 32 word" where
  "gridInner graph vehicleMap v1 [] st = st"
| "gridInner graph vehicleMap v1 (nearbyId # rest) (adj, totalComparisons) =
     (if nearbyId \<le> id_v v1 then gridInner graph vehicleMap v1 rest (adj, totalComparisons)
      else
        (case map_of vehicleMap nearbyId of
           None \<Rightarrow> gridInner graph vehicleMap v1 rest (adj, totalComparisons + 1)
         | Some v2 \<Rightarrow>
             gridInner graph vehicleMap v1 rest
               (connectVehicles graph v1 v2 adj, totalComparisons + 1)))"

fun buildGraphWithSpatialGrid ::
  "RoadGraph \<Rightarrow> (int \<Rightarrow> int list) \<Rightarrow> (int \<times> Vehicule) list \<Rightarrow> Vehicule option list
     \<Rightarrow> IdMap \<times> 32 word \<Rightarrow> IdMap \<times> 32 word" where
  "buildGraphWithSpatialGrid graph getNearbyVehicles vehicleMap [] st = st"
| "buildGraphWithSpatialGrid graph getNearbyVehicles vehicleMap (None # rest) st =
     buildGraphWithSpatialGrid graph getNearbyVehicles vehicleMap rest st"
| "buildGraphWithSpatialGrid graph getNearbyVehicles vehicleMap (Some v1 # rest) st =
     buildGraphWithSpatialGrid graph getNearbyVehicles vehicleMap rest
       (gridInner graph vehicleMap v1 (getNearbyVehicles (id_v v1)) st)"

text \<open>The first loop of \<^verbatim>\<open>buildGraph\<close>: the vehicle map and an empty set per vehicle.\<close>

fun registerVehicles ::
  "Vehicule option list \<Rightarrow> (int \<times> Vehicule) list \<times> IdMap \<Rightarrow> (int \<times> Vehicule) list \<times> IdMap" where
  "registerVehicles [] st = st"
| "registerVehicles (None # rest) st = registerVehicles rest st"
| "registerVehicles (Some v # rest) (vehicleMap, adj) =
     registerVehicles rest (AList.update (id_v v) v vehicleMap, AList.update (id_v v) [] adj)"

text \<open>
  \<^verbatim>\<open>buildGraph\<close>. With the closure switched on, the source also rewrites the
  neighbour pointers of the vehicles from the closure; that touches the vehicles only,
  not the graph object, and is left out.
\<close>

definition buildGraph ::
  "RoadGraph \<Rightarrow> (int \<Rightarrow> int list) \<Rightarrow> InterferenceGraph \<Rightarrow> Vehicule option list
     \<Rightarrow> InterferenceGraph" where
  "buildGraph graph getNearbyVehicles g vehicles =
     (let g = g\<lparr>m_adjacencyList := [], m_transitiveClosure := []\<rparr> in
      if vehicles = [] then g
      else
        (case registerVehicles vehicles ([], m_adjacencyList g) of
           (vehicleMap, adj) \<Rightarrow>
             let st = (if m_useSpatialGrid g \<and> length vehicles \<ge> 20
                       then buildGraphWithSpatialGrid graph getNearbyVehicles vehicleMap vehicles
                              (adj, 0)
                       else buildGraphClassic graph vehicles (adj, 0));
                 g = g\<lparr>m_adjacencyList := fst st, m_lastComparisons := snd st\<rparr>
             in if m_computeTransitive g then computeTransitiveClosure g else g))"

section \<open>Notions used to state the properties\<close>

subsection \<open>Edges and compared pairs\<close>

text \<open>
  The adjacency relation of an adjacency map: \<open>(a, b)\<close> when \<open>b\<close> is in the set of \<open>a\<close>.
\<close>

definition adjEdges :: "IdMap \<Rightarrow> (int \<times> int) set" where
  "adjEdges adj = {(a, b). \<exists>s. map_of adj a = Some s \<and> b \<in> set s}"

text \<open>
  Two snapshots are within mutual range when the distance, computed from the first, is
  at most the range of each.
\<close>

definition withinMutualRange :: "VehicleSnapshot \<Rightarrow> VehicleSnapshot \<Rightarrow> bool" where
  "withinMutualRange v1 v2 =
     (snapshotDistance v1 v2 \<le> transmissionRange v1 \<and>
      snapshotDistance v1 v2 \<le> transmissionRange v2)"

text \<open>
  The edges that one comparison of the snapshot builder adds: both directions or none.
\<close>

definition pairEdges :: "VehicleSnapshot \<Rightarrow> VehicleSnapshot \<Rightarrow> (int \<times> int) set" where
  "pairEdges v1 v2 =
     (if withinMutualRange v1 v2 then {(id_s v1, id_s v2), (id_s v2, id_s v1)} else {})"

text \<open>
  \<open>adj'\<close> is \<open>adj\<close> with the edges \<open>X\<close> added and the keys that come with them.
\<close>

definition extends :: "IdMap \<Rightarrow> IdMap \<Rightarrow> (int \<times> int) set \<Rightarrow> bool" where
  "extends adj adj' X =
     (adjEdges adj' = adjEdges adj \<union> X \<and> fst ` set adj' = fst ` set adj \<union> fst ` X)"

text \<open>
  The edges added for a set of pairs of snapshot indices: those of the pairs of valid
  indices.
\<close>

definition snapEdges :: "VehicleSnapshot list \<Rightarrow> (int \<times> int) set \<Rightarrow> (int \<times> int) set" where
  "snapEdges snapshots S =
     (\<Union>(p, q) \<in> {(p, q). (p, q) \<in> S \<and> validIndex snapshots p \<and> validIndex snapshots q}.
        pairEdges (snapshots ! nat p) (snapshots ! nat q))"

text \<open>
  The pairs of an element of a list and a later one: what a loop with \<open>j\<close> from \<open>i + 1\<close>
  visits.
\<close>

fun laterPairs :: "'a list \<Rightarrow> ('a \<times> 'a) set" where
  "laterPairs [] = {}"
| "laterPairs (x # xs) = {x} \<times> set xs \<union> laterPairs xs"

text \<open>
  The pairs that step 2 of an antenna visits: its vehicles with those of each neighbour
  antenna that has a larger id and vehicles.
\<close>

definition crossPairs :: "AntennaNeighborhood \<Rightarrow> int \<Rightarrow> int list \<Rightarrow> int list \<Rightarrow> (int \<times> int) set" where
  "crossPairs info antennaId vehicleIndices neighborIds =
     (\<Union>c' \<in> {c' \<in> set neighborIds. antennaId < c'}.
        case map_of (vehiclesPerAntenna info) c' of
          None \<Rightarrow> {}
        | Some neighborVehicles \<Rightarrow> set vehicleIndices \<times> set neighborVehicles)"

text \<open>
  The pairs that one turn of the loop over the antennas visits.
\<close>

definition antennaPairs :: "AntennaNeighborhood \<Rightarrow> int \<times> int list \<Rightarrow> (int \<times> int) set" where
  "antennaPairs info entry =
     (case entry of (antennaId, vehicleIndices) \<Rightarrow>
        laterPairs vehicleIndices \<union>
        (case map_of (neighborAntennas info) antennaId of
           None \<Rightarrow> {}
         | Some neighborIds \<Rightarrow> crossPairs info antennaId vehicleIndices neighborIds))"

text \<open>The pairs of snapshot indices that the antenna branch compares.\<close>

definition consideredPairs :: "AntennaNeighborhood \<Rightarrow> (int \<times> int) set" where
  "consideredPairs info = (\<Union>entry \<in> set (vehiclesPerAntenna info). antennaPairs info entry)"

text \<open>
  The pairs of indices that the antenna branch compares, in the words of the
  specification: two entries \<open>i < j\<close> of the vehicle list of one antenna, or a vehicle of
  an antenna and a vehicle of one of its neighbour antennas with a larger id.
\<close>

definition sameAntennaPair :: "AntennaNeighborhood \<Rightarrow> int \<Rightarrow> int \<Rightarrow> bool" where
  "sameAntennaPair info p q =
     (\<exists>antennaId vehicleIndices i j.
        (antennaId, vehicleIndices) \<in> set (vehiclesPerAntenna info) \<and>
        i < j \<and> j < length vehicleIndices \<and> vehicleIndices ! i = p \<and> vehicleIndices ! j = q)"

definition neighborAntennaPair :: "AntennaNeighborhood \<Rightarrow> int \<Rightarrow> int \<Rightarrow> bool" where
  "neighborAntennaPair info p q =
     (\<exists>antennaId vehicleIndices neighborIds neighborAntennaId neighborVehicles.
        (antennaId, vehicleIndices) \<in> set (vehiclesPerAntenna info) \<and>
        map_of (neighborAntennas info) antennaId = Some neighborIds \<and>
        neighborAntennaId \<in> set neighborIds \<and> antennaId < neighborAntennaId \<and>
        map_of (vehiclesPerAntenna info) neighborAntennaId = Some neighborVehicles \<and>
        p \<in> set vehicleIndices \<and> q \<in> set neighborVehicles)"

text \<open>The snapshot indices that occur in the vehicle lists.\<close>

definition listedIndices :: "(int \<times> int list) list \<Rightarrow> int set" where
  "listedIndices al = set (concat (map snd al))"

subsection \<open>Example data\<close>

text \<open>
  Example data: a generator that always returns 0, a road of two vertices half a metre
  apart joined by an edge in each direction, and a vehicle as the constructor makes it,
  at vertex 0 with goal 1 and the speed of 14 m/s that the simulator gives its vehicles.
\<close>

definition zeroRand :: RandState where
  "zeroRand = (\<lambda>n. 0)"

definition twoVertexRoad :: RoadGraph where
  "twoVertexRoad =
     \<lparr>vertexData = [\<lparr>id_n = 10, lat_n = 0, lon_n = 0\<rparr>, \<lparr>id_n = 11, lat_n = 0, lon_n = 1 / 1000\<rparr>],
      edgeList = [\<lparr>source = 0, target = 1, distance = 1 / 2, type_e = ''primary''\<rparr>,
                  \<lparr>source = 1, target = 0, distance = 1 / 2, type_e = ''primary''\<rparr>]\<rparr>"

text \<open>
  A road due north with a drift to the west of one part in \<open>2 ^ 50\<close>: from \<open>(0, 0)\<close> to
  latitude \<open>1 / 2 ^ 10\<close> and longitude \<open>- (1 / 2 ^ 60)\<close> degrees, with an edge of the
  given length in each direction.
\<close>

definition slantedRoad :: "real \<Rightarrow> RoadGraph" where
  "slantedRoad len =
     \<lparr>vertexData = [\<lparr>id_n = 20, lat_n = 0, lon_n = 0\<rparr>,
                    \<lparr>id_n = 21, lat_n = 1 / 2 ^ 10, lon_n = - (1 / 2 ^ 60)\<rparr>],
      edgeList = [\<lparr>source = 0, target = 1, distance = len, type_e = ''primary''\<rparr>,
                  \<lparr>source = 1, target = 0, distance = len, type_e = ''primary''\<rparr>]\<rparr>"

definition freshVehicule :: Vehicule where
  "freshVehicule =
     \<lparr>id_v = 1, start = 0, goal = 1, nextVertex = 0, currEdge = nullEdge, previousVertex = 0,
      collisionDist = 5, transmissionRange_v = 500, speed = 14, recentVertices = [],
      stuckCounter = 0, currVertex = 0, edgeLength = 0, positionOnEdge = 0,
      currentHeading = 0, targetHeading = 0\<rparr>"

section \<open>Properties\<close>

subsection \<open>The time step of a tick\<close>

text \<open>
  C5, as the specification states it: the time step of a tick is
  \<open>min(elapsed, 2 T)\<close> seconds times the speed multiplier. The code has no such bound:
  with a tick interval of 50 ms, one second elapsed and multiplier 1 the step is one
  second, not 0.1 s.
\<close>

theorem onTick_deltaTime_unclamped_counterexample:
  "onTick_deltaTime \<lparr>m_tickIntervalMs = 50, m_speedMultiplier = 1\<rparr> 1000 = 1 \<and>
   onTick_deltaTime \<lparr>m_tickIntervalMs = 50, m_speedMultiplier = 1\<rparr> 1000
     \<noteq> min (real_of_int 1000 / 1000) (2 * (real_of_int 50 / 1000)) * 1 \<and>
   \<not> onTick_deltaTime \<lparr>m_tickIntervalMs = 50, m_speedMultiplier = 1\<rparr> 1000
       \<le> 2 * (real_of_int 50 / 1000) * 1"
  by (simp add: onTick_deltaTime_def)

text \<open>
  C5, amended: the time step of a tick is the elapsed time since the previous tick, in
  seconds, times the speed multiplier, whatever the tick interval is; it grows with the
  elapsed time without bound.
\<close>

theorem onTick_deltaTime_elapsed:
  "onTick_deltaTime (sim\<lparr>m_tickIntervalMs := T\<rparr>) elapsedMs
     = real_of_int elapsedMs / 1000 * m_speedMultiplier sim \<and>
   onTick_deltaTime sim (elapsedMs + k)
     = onTick_deltaTime sim elapsedMs + real_of_int k / 1000 * m_speedMultiplier sim"
  by (simp add: onTick_deltaTime_def algebra_simps add_divide_distrib)

subsection \<open>Defaults for a zero cell count\<close>

text \<open>
  C6, what the code does on the reconfiguration path: with the grid enabled and at
  least 20 vehicles, \<^verbatim>\<open>placeAntennas\<close> hands the two counts on to the grid as they
  are, a zero included; no default is substituted.
\<close>

theorem placeAntennas_passes_counts:
  assumes "m_useSpatialGrid g" and "20 \<le> n"
  shows "snd (placeAntennas g n numLarge numSmall) = Some (numLarge, numSmall)"
  using assms by (simp add: placeAntennas_def reinitializeSpatialGrid_def)

text \<open>
  At the failing input: with 600 vehicles, \<^verbatim>\<open>placeAntennas(0, 0)\<close> hands \<open>(0, 0)\<close>
  on, while the first-time initialisation with the same arguments substitutes
  \<open>(20, 15)\<close>.
\<close>

theorem placeAntennas_zero_witness:
  "snd (placeAntennas (InterferenceGraph_new\<lparr>m_gridInitialized := True\<rparr>) 600 0 0)
     = Some (0, 0) \<and>
   snd (initializeSpatialGrid InterferenceGraph_new 600 0 0)
     = Some (20, 15)"
  using placeAntennas_passes_counts
          [of "InterferenceGraph_new\<lparr>m_gridInitialized := True\<rparr>" 600 0 0]
  by (simp add: initializeSpatialGrid_def InterferenceGraph_new_def)

subsection \<open>The edges that the loops of the snapshot builder add\<close>

lemma extends_refl: "extends adj adj {}"
  by (simp add: extends_def)

lemma extends_trans: "extends a b X \<Longrightarrow> extends b c Y \<Longrightarrow> extends a c (X \<union> Y)"
  by (auto simp: extends_def)

lemma adjEdges_adjInsert: "adjEdges (adjInsert a b adj) = insert (a, b) (adjEdges adj)"
  by (auto simp: adjEdges_def adjInsert_def update_conv' split: option.splits if_splits)

lemma keys_adjInsert: "fst ` set (adjInsert a b adj) = insert a (fst ` set adj)"
  by (simp add: adjInsert_def dom_update)

lemma extends_connect:
  "extends adj (connectIfInRange d r1 r2 a b adj)
     (if d \<le> r1 \<and> d \<le> r2 then {(a, b), (b, a)} else {})"
  by (auto simp: extends_def connectIfInRange_def adjEdges_adjInsert keys_adjInsert)

lemma extends_compareSnapshots:
  "extends (fst st) (fst (compareSnapshots v1 v2 st)) (pairEdges v1 v2)"
  using extends_connect [of "fst st" "snapshotDistance v1 v2" "transmissionRange v1"
      "transmissionRange v2" "id_s v1" "id_s v2"]
  by (cases st) (simp add: compareSnapshots_def pairEdges_def withinMutualRange_def)

lemma snd_compareSnapshots: "snd (compareSnapshots v1 v2 st) = snd st + 1"
  by (simp add: compareSnapshots_def split: prod.splits)

lemma snapEdges_empty: "snapEdges snapshots {} = {}"
  by (simp add: snapEdges_def)

lemma snapEdges_Un: "snapEdges snapshots (S \<union> T) = snapEdges snapshots S \<union> snapEdges snapshots T"
  by (auto simp: snapEdges_def)

lemma snapEdges_UN: "snapEdges snapshots (\<Union>x\<in>A. F x) = (\<Union>x\<in>A. snapEdges snapshots (F x))"
  by (auto simp: snapEdges_def)

lemma snapEdges_invalid1: "\<not> validIndex snapshots p \<Longrightarrow> snapEdges snapshots ({p} \<times> T) = {}"
  by (auto simp: snapEdges_def)

lemma snapEdges_insert:
  "snapEdges snapshots (insert (p, q) S) =
     (if validIndex snapshots p \<and> validIndex snapshots q
      then pairEdges (snapshots ! nat p) (snapshots ! nat q) else {})
       \<union> snapEdges snapshots S"
  by (auto simp: snapEdges_def)

lemma extends_compareWithIndices:
  "validIndex snapshots p \<Longrightarrow>
   extends (fst st) (fst (compareWithIndices snapshots (snapshots ! nat p) idxs st))
     (snapEdges snapshots ({p} \<times> set idxs))"
proof (induction idxs arbitrary: st)
  case Nil
  then show ?case by (simp add: snapEdges_empty extends_refl)
next
  case (Cons q idxs)
  show ?case
  proof (cases "validIndex snapshots q")
    case True
    have "extends (fst st) (fst (compareWithIndices snapshots (snapshots ! nat p) idxs
            (compareSnapshots (snapshots ! nat p) (snapshots ! nat q) st)))
          (pairEdges (snapshots ! nat p) (snapshots ! nat q) \<union> snapEdges snapshots ({p} \<times> set idxs))"
      using extends_trans [OF extends_compareSnapshots Cons.IH [OF Cons.prems]] .
    then show ?thesis using True Cons.prems by (simp add: snapEdges_insert)
  next
    case False
    then show ?thesis using Cons.IH [OF Cons.prems, of st] Cons.prems
      by (simp add: snapEdges_insert)
  qed
qed

lemma laterPairs_iff:
  "(p, q) \<in> laterPairs xs \<longleftrightarrow> (\<exists>i j. i < j \<and> j < length xs \<and> xs ! i = p \<and> xs ! j = q)"
proof (induction xs)
  case Nil
  then show ?case by simp
next
  case (Cons x xs)
  show ?case
  proof
    assume "(p, q) \<in> laterPairs (x # xs)"
    then consider "p = x" "q \<in> set xs" | "(p, q) \<in> laterPairs xs" by auto
    then show "\<exists>i j. i < j \<and> j < length (x # xs) \<and> (x # xs) ! i = p \<and> (x # xs) ! j = q"
    proof cases
      case 1
      then obtain j where "j < length xs" "xs ! j = q" by (auto simp: in_set_conv_nth)
      then have "0 < Suc j \<and> Suc j < length (x # xs) \<and> (x # xs) ! 0 = p \<and> (x # xs) ! Suc j = q"
        using 1 by simp
      then show ?thesis by blast
    next
      case 2
      then obtain i j where "i < j" "j < length xs" "xs ! i = p" "xs ! j = q"
        using Cons.IH by blast
      then have "Suc i < Suc j \<and> Suc j < length (x # xs) \<and> (x # xs) ! Suc i = p \<and> (x # xs) ! Suc j = q"
        by simp
      then show ?thesis by blast
    qed
  next
    assume "\<exists>i j. i < j \<and> j < length (x # xs) \<and> (x # xs) ! i = p \<and> (x # xs) ! j = q"
    then obtain i j where ij: "i < j" "j < length (x # xs)" "(x # xs) ! i = p" "(x # xs) ! j = q"
      by blast
    then obtain j' where j': "j = Suc j'" by (cases j) auto
    show "(p, q) \<in> laterPairs (x # xs)"
    proof (cases i)
      case 0
      then show ?thesis using ij j' by auto
    next
      case (Suc i')
      then have "i' < j' \<and> j' < length xs \<and> xs ! i' = p \<and> xs ! j' = q" using ij j' by simp
      then have "(p, q) \<in> laterPairs xs" using Cons.IH by blast
      then show ?thesis by simp
    qed
  qed
qed

lemma extends_compareSameAntenna:
  "extends (fst st) (fst (compareSameAntenna snapshots idxs st))
     (snapEdges snapshots (laterPairs idxs))"
proof (induction idxs arbitrary: st)
  case Nil
  then show ?case by (simp add: snapEdges_empty extends_refl)
next
  case (Cons p idxs)
  show ?case
  proof (cases "validIndex snapshots p")
    case True
    show ?thesis
      using extends_trans [OF extends_compareWithIndices [OF True, of st idxs] Cons.IH] True
      by (simp add: snapEdges_Un)
  next
    case False
    then show ?thesis using Cons.IH [of st] by (simp add: snapEdges_Un snapEdges_invalid1)
  qed
qed

lemma extends_compareAcrossAntennas:
  "extends (fst st) (fst (compareAcrossAntennas snapshots idxs1 idxs2 st))
     (snapEdges snapshots (set idxs1 \<times> set idxs2))"
proof (induction idxs1 arbitrary: st)
  case Nil
  then show ?case by (simp add: snapEdges_empty extends_refl)
next
  case (Cons p idxs1)
  have split: "set (p # idxs1) \<times> set idxs2 = {p} \<times> set idxs2 \<union> set idxs1 \<times> set idxs2"
    by auto
  show ?case
  proof (cases "validIndex snapshots p")
    case True
    show ?thesis
      using extends_trans [OF extends_compareWithIndices [OF True, of st idxs2] Cons.IH] True
      unfolding split by (simp add: snapEdges_Un)
  next
    case False
    then show ?thesis using Cons.IH [of st] unfolding split
      by (simp add: snapEdges_Un snapEdges_invalid1)
  qed
qed

lemma crossPairs_Nil: "crossPairs info c idxs [] = {}"
  by (simp add: crossPairs_def)

lemma crossPairs_Cons:
  "crossPairs info c idxs (c' # ns) =
     (if c' \<le> c then {} else
        (case map_of (vehiclesPerAntenna info) c' of None \<Rightarrow> {}
         | Some idxs' \<Rightarrow> set idxs \<times> set idxs')) \<union> crossPairs info c idxs ns"
  by (auto simp: crossPairs_def split: option.splits)

lemma extends_compareNeighborAntennas:
  "extends (fst st) (fst (compareNeighborAntennas snapshots info c idxs ns st))
     (snapEdges snapshots (crossPairs info c idxs ns))"
proof (induction ns arbitrary: st)
  case Nil
  then show ?case by (simp add: crossPairs_Nil snapEdges_empty extends_refl)
next
  case (Cons c' ns)
  show ?case
  proof (cases "c' \<le> c")
    case True
    then show ?thesis using Cons.IH [of st] by (simp add: crossPairs_Cons)
  next
    case False
    show ?thesis
    proof (cases "map_of (vehiclesPerAntenna info) c'")
      case None
      then show ?thesis using False Cons.IH [of st]
        by (simp add: crossPairs_Cons snapEdges_Un snapEdges_empty)
    next
      case (Some idxs')
      show ?thesis
        using extends_trans [OF extends_compareAcrossAntennas [of st snapshots idxs idxs'] Cons.IH]
          False Some
        by (simp add: crossPairs_Cons snapEdges_Un)
    qed
  qed
qed

lemma extends_compareAntennas:
  "extends (fst st) (fst (compareAntennas snapshots info entries st))
     (snapEdges snapshots (\<Union>entry \<in> set entries. antennaPairs info entry))"
proof (induction entries arbitrary: st)
  case Nil
  then show ?case by (simp add: snapEdges_empty extends_refl)
next
  case (Cons entry entries)
  obtain c idxs where entry: "entry = (c, idxs)" by (cases entry)
  let ?st1 = "compareSameAntenna snapshots idxs st"
  show ?case
  proof (cases "map_of (neighborAntennas info) c")
    case None
    show ?thesis
      using extends_trans [OF extends_compareSameAntenna [of st snapshots idxs] Cons.IH [of ?st1]]
      by (simp add: entry None antennaPairs_def snapEdges_Un snapEdges_empty)
  next
    case (Some ns)
    let ?st2 = "compareNeighborAntennas snapshots info c idxs ns ?st1"
    have "extends (fst st) (fst ?st2)
            (snapEdges snapshots (laterPairs idxs) \<union> snapEdges snapshots (crossPairs info c idxs ns))"
      using extends_trans [OF extends_compareSameAntenna extends_compareNeighborAntennas] .
    from extends_trans [OF this Cons.IH [of ?st2]]
    show ?thesis
      by (simp add: entry Some antennaPairs_def snapEdges_Un Un_assoc)
  qed
qed

lemma extends_compareWithRest:
  "extends (fst st) (fst (compareWithRest v1 rest st)) (\<Union>v2 \<in> set rest. pairEdges v1 v2)"
proof (induction rest arbitrary: st)
  case Nil
  then show ?case by (simp add: extends_refl)
next
  case (Cons v2 rest)
  show ?case
    using extends_trans [OF extends_compareSnapshots [of st v1 v2] Cons.IH]
    by simp
qed

lemma extends_compareAllPairs:
  "extends (fst st) (fst (compareAllPairs snapshots st))
     (\<Union>(v1, v2) \<in> laterPairs snapshots. pairEdges v1 v2)"
proof (induction snapshots arbitrary: st)
  case Nil
  then show ?case by (simp add: extends_refl)
next
  case (Cons v1 rest)
  have "(\<Union>(v1, v2) \<in> laterPairs (v1 # rest). pairEdges v1 v2)
        = (\<Union>v2 \<in> set rest. pairEdges v1 v2) \<union> (\<Union>(v1, v2) \<in> laterPairs rest. pairEdges v1 v2)"
    by auto
  then show ?case
    using extends_trans [OF extends_compareWithRest [of st v1 rest] Cons.IH]
    by simp
qed

lemma snd_compareWithRest:
  "snd (compareWithRest v1 rest st) = snd st + of_nat (length rest)"
  by (induction rest arbitrary: st) (simp_all add: snd_compareSnapshots)

lemma pairs_count_Suc: "Suc n * n div 2 = n + n * (n - 1) div 2"
proof (cases n)
  case 0
  then show ?thesis by simp
next
  case (Suc m)
  have "Suc (Suc m) * Suc m = Suc m * 2 + Suc m * m" by simp
  then have "Suc (Suc m) * Suc m div 2 = Suc m + Suc m * m div 2"
    by (metis div_mult_self3 zero_neq_numeral)
  then show ?thesis using Suc by simp
qed

lemma snd_compareAllPairs:
  "snd (compareAllPairs snapshots st)
     = snd st + of_nat (length snapshots * (length snapshots - 1) div 2)"
proof (induction snapshots arbitrary: st)
  case Nil
  then show ?case by simp
next
  case (Cons v1 rest)
  show ?case
    using pairs_count_Suc [of "length rest"]
    by (simp add: Cons.IH snd_compareWithRest)
qed

lemma snapshotDistance_same_lon:
  "lon v1 = lon v2 \<Longrightarrow> snapshotDistance v1 v2 = \<bar>lat v2 - lat v1\<bar> * 111000"
proof -
  assume "lon v1 = lon v2"
  then have "snapshotDistance v1 v2
      = sqrt (((lat v2 - lat v1) * 111000) * ((lat v2 - lat v1) * 111000))"
    by (simp add: snapshotDistance_def)
  also have "\<dots> = \<bar>(lat v2 - lat v1) * 111000\<bar>" by (rule real_sqrt_abs2)
  also have "\<dots> = \<bar>lat v2 - lat v1\<bar> * 111000" unfolding abs_mult by simp
  finally show ?thesis .
qed

subsection \<open>The adjacency map after a build from snapshots\<close>

lemma keys_initAdjacency:
  "fst ` set (initAdjacency snapshots adj) = fst ` set adj \<union> id_s ` set snapshots"
  unfolding initAdjacency_def
  by (induction snapshots arbitrary: adj) (auto simp: dom_update)

lemma adjEdges_update_empty: "adjEdges adj = {} \<Longrightarrow> adjEdges (AList.update k [] adj) = {}"
  by (auto simp: adjEdges_def update_conv' split: if_splits)

lemma adjEdges_initAdjacency: "adjEdges adj = {} \<Longrightarrow> adjEdges (initAdjacency snapshots adj) = {}"
  unfolding initAdjacency_def
  by (induction snapshots arbitrary: adj) (simp_all add: adjEdges_update_empty)

lemma adjEdges_Nil: "adjEdges [] = {}"
  by (simp add: adjEdges_def)

lemma adjacency_computeTransitiveClosure:
  "m_adjacencyList (computeTransitiveClosure g) = m_adjacencyList g"
  by (simp add: computeTransitiveClosure_def)

lemma build_empty:
  "m_adjacencyList (buildGraphFromSnapshots g [] antennaInfo) = []"
  by (simp add: buildGraphFromSnapshots_def)

lemma adjEdges_getDirectNeighbors:
  "(a, b) \<in> adjEdges (m_adjacencyList g) \<longleftrightarrow> b \<in> set (getDirectNeighbors g a)"
  by (cases "map_of (m_adjacencyList g) a") (simp_all add: adjEdges_def getDirectNeighbors_def)

lemma build_antennas_state:
  assumes "snapshots \<noteq> []" and "vehiclesPerAntenna info \<noteq> []"
  shows "extends (initAdjacency snapshots [])
           (m_adjacencyList (buildGraphFromSnapshots g snapshots (Some info)))
           (snapEdges snapshots (consideredPairs info))"
proof -
  let ?adj0 = "initAdjacency snapshots []"
  let ?st = "compareAntennas snapshots info (vehiclesPerAntenna info) (?adj0, 0)"
  have adj: "m_adjacencyList (buildGraphFromSnapshots g snapshots (Some info)) = fst ?st"
    using assms
    by (simp add: buildGraphFromSnapshots_def Let_def adjacency_computeTransitiveClosure)
  show ?thesis
    using extends_compareAntennas [of "(?adj0, 0)" snapshots info "vehiclesPerAntenna info"]
    by (simp add: consideredPairs_def adj)
qed

lemma build_antennas_edges:
  assumes "snapshots \<noteq> []" and "vehiclesPerAntenna info \<noteq> []"
  shows "adjEdges (m_adjacencyList (buildGraphFromSnapshots g snapshots (Some info)))
           = snapEdges snapshots (consideredPairs info)"
  using build_antennas_state [OF assms, of g]
  by (simp add: extends_def adjEdges_initAdjacency adjEdges_Nil)

lemma build_keys_antennas:
  assumes "snapshots \<noteq> []" and "vehiclesPerAntenna info \<noteq> []"
  shows "id_s ` set snapshots
           \<subseteq> fst ` set (m_adjacencyList (buildGraphFromSnapshots g snapshots (Some info)))"
  using build_antennas_state [OF assms, of g]
  by (simp add: extends_def keys_initAdjacency)

lemma build_fallback_state:
  assumes "snapshots \<noteq> []" and "\<not> usesAntennas antennaInfo"
  shows "m_adjacencyList (buildGraphFromSnapshots g snapshots antennaInfo)
           = fst (compareAllPairs snapshots (initAdjacency snapshots [], 0))"
    and "m_lastComparisons (buildGraphFromSnapshots g snapshots antennaInfo)
           = snd (compareAllPairs snapshots (initAdjacency snapshots [], 0))"
  using assms
  by (simp_all add: buildGraphFromSnapshots_def Let_def adjacency_computeTransitiveClosure
      usesAntennas_def split: option.splits)

lemma build_fallback_edges:
  assumes "snapshots \<noteq> []" and "\<not> usesAntennas antennaInfo"
  shows "adjEdges (m_adjacencyList (buildGraphFromSnapshots g snapshots antennaInfo))
           = (\<Union>(v1, v2) \<in> laterPairs snapshots. pairEdges v1 v2)"
  using extends_compareAllPairs [of "(initAdjacency snapshots [], 0)" snapshots]
  by (simp add: build_fallback_state [OF assms] extends_def adjEdges_initAdjacency adjEdges_Nil)

lemma build_fallback_keys:
  assumes "snapshots \<noteq> []" and "\<not> usesAntennas antennaInfo"
  shows "id_s ` set snapshots
           \<subseteq> fst ` set (m_adjacencyList (buildGraphFromSnapshots g snapshots antennaInfo))"
  using extends_compareAllPairs [of "(initAdjacency snapshots [], 0)" snapshots]
  by (simp add: build_fallback_state [OF assms] extends_def keys_initAdjacency)

lemma sym_pairEdges: "(a, b) \<in> pairEdges v1 v2 \<Longrightarrow> (b, a) \<in> pairEdges v1 v2"
  by (auto simp: pairEdges_def split: if_splits)

lemma sym_snapEdges: "(a, b) \<in> snapEdges snapshots S \<Longrightarrow> (b, a) \<in> snapEdges snapshots S"
  unfolding snapEdges_def by (auto dest: sym_pairEdges)

lemma build_snapshots_sym:
  assumes ab: "(a, b) \<in> adjEdges (m_adjacencyList (buildGraphFromSnapshots g snapshots antennaInfo))"
  shows "(b, a) \<in> adjEdges (m_adjacencyList (buildGraphFromSnapshots g snapshots antennaInfo))"
proof (cases "snapshots = []")
  case True
  then show ?thesis using ab by (simp add: build_empty adjEdges_Nil)
next
  case False
  show ?thesis
  proof (cases "usesAntennas antennaInfo")
    case True
    then obtain info where info: "antennaInfo = Some info" "vehiclesPerAntenna info \<noteq> []"
      by (auto simp: usesAntennas_def split: option.splits)
    show ?thesis using ab sym_snapEdges
      unfolding info build_antennas_edges [OF False info(2)] by blast
  next
    case no: False
    have "(a, b) \<in> (\<Union>(v1, v2) \<in> laterPairs snapshots. pairEdges v1 v2)"
      using ab unfolding build_fallback_edges [OF False no] .
    then obtain v1 v2 where "(v1, v2) \<in> laterPairs snapshots" "(a, b) \<in> pairEdges v1 v2"
      by auto
    then have "(b, a) \<in> (\<Union>(v1, v2) \<in> laterPairs snapshots. pairEdges v1 v2)"
      using sym_pairEdges by blast
    then show ?thesis unfolding build_fallback_edges [OF False no] .
  qed
qed

lemma closure_build_disabled:
  "\<not> m_computeTransitive g \<Longrightarrow>
   m_transitiveClosure (buildGraphFromSnapshots g snapshots antennaInfo) = []"
  by (simp add: buildGraphFromSnapshots_def Let_def)

subsection \<open>The pairs that the antenna branch compares\<close>

lemma crossPairs_iff:
  "(p, q) \<in> crossPairs info c l ns \<longleftrightarrow>
     (\<exists>c' l'. c' \<in> set ns \<and> c < c' \<and> map_of (vehiclesPerAntenna info) c' = Some l' \<and>
        p \<in> set l \<and> q \<in> set l')"
  by (auto simp: crossPairs_def split: option.splits)

lemma consideredPairs_iff:
  "(p, q) \<in> consideredPairs info \<longleftrightarrow> sameAntennaPair info p q \<or> neighborAntennaPair info p q"
proof
  assume "(p, q) \<in> consideredPairs info"
  then obtain c l where cl: "(c, l) \<in> set (vehiclesPerAntenna info)"
    and pq: "(p, q) \<in> antennaPairs info (c, l)"
    by (auto simp: consideredPairs_def)
  from pq consider "(p, q) \<in> laterPairs l"
    | ns where "map_of (neighborAntennas info) c = Some ns" "(p, q) \<in> crossPairs info c l ns"
    by (auto simp: antennaPairs_def split: option.splits)
  then show "sameAntennaPair info p q \<or> neighborAntennaPair info p q"
  proof cases
    case 1
    then have "sameAntennaPair info p q"
      using cl unfolding sameAntennaPair_def laterPairs_iff by blast
    then show ?thesis ..
  next
    case 2
    then have "neighborAntennaPair info p q"
      using cl unfolding neighborAntennaPair_def crossPairs_iff by blast
    then show ?thesis ..
  qed
next
  assume "sameAntennaPair info p q \<or> neighborAntennaPair info p q"
  then show "(p, q) \<in> consideredPairs info"
  proof
    assume "sameAntennaPair info p q"
    then obtain c l where "(c, l) \<in> set (vehiclesPerAntenna info)" "(p, q) \<in> laterPairs l"
      unfolding sameAntennaPair_def laterPairs_iff by blast
    then show ?thesis
      unfolding consideredPairs_def antennaPairs_def by (auto split: option.splits)
  next
    assume "neighborAntennaPair info p q"
    then obtain c l ns where "(c, l) \<in> set (vehiclesPerAntenna info)"
      "map_of (neighborAntennas info) c = Some ns" "(p, q) \<in> crossPairs info c l ns"
      unfolding neighborAntennaPair_def crossPairs_iff by blast
    then show ?thesis
      unfolding consideredPairs_def antennaPairs_def by force
  qed
qed

lemma entry_unique:
  "distinct (concat (map snd al)) \<Longrightarrow> (c, l) \<in> set al \<Longrightarrow> (c', l') \<in> set al \<Longrightarrow>
   x \<in> set l \<Longrightarrow> x \<in> set l' \<Longrightarrow> c = c' \<and> l = l'"
proof (induction al)
  case Nil
  then show ?case by simp
next
  case (Cons e al)
  have disj: "set (snd e) \<inter> \<Union>(set ` snd ` set al) = {}" and d: "distinct (concat (map snd al))"
    using Cons.prems(1) by auto
  consider "(c, l) = e" "(c', l') = e" | "(c, l) = e" "(c', l') \<in> set al"
    | "(c, l) \<in> set al" "(c', l') = e" | "(c, l) \<in> set al" "(c', l') \<in> set al"
    using Cons.prems(2,3) by auto
  then show ?case
  proof cases
    case 1
    then show ?thesis by auto
  next
    case 2
    then have "x \<in> set (snd e)" "x \<in> \<Union>(set ` snd ` set al)"
      using Cons.prems(4,5) by force+
    then show ?thesis using disj by blast
  next
    case 3
    then have "x \<in> set (snd e)" "x \<in> \<Union>(set ` snd ` set al)"
      using Cons.prems(4,5) by force+
    then show ?thesis using disj by blast
  next
    case 4
    then show ?thesis using Cons.IH [OF d] Cons.prems(4,5) by blast
  qed
qed

lemma entry_distinct:
  "distinct (concat (map snd al)) \<Longrightarrow> (c, l) \<in> set al \<Longrightarrow> distinct l"
  by (induction al) auto

lemma laterPairs_subset: "(p, q) \<in> laterPairs l \<Longrightarrow> p \<in> set l \<and> q \<in> set l"
  unfolding laterPairs_iff by auto

lemma laterPairs_no_reverse:
  assumes "distinct l" and "(p, q) \<in> laterPairs l" and "(q, p) \<in> laterPairs l"
  shows False
proof -
  obtain i j where ij: "i < j" "j < length l" "l ! i = p" "l ! j = q"
    using assms(2) unfolding laterPairs_iff by blast
  obtain i' j' where ij': "i' < j'" "j' < length l" "l ! i' = q" "l ! j' = p"
    using assms(3) unfolding laterPairs_iff by blast
  have lens: "i < length l" "i' < length l" using ij ij' by simp_all
  have "i = j'" using nth_eq_iff_index_eq [OF assms(1) lens(1) ij'(2)] ij ij' by simp
  moreover have "j = i'" using nth_eq_iff_index_eq [OF assms(1) ij(2) lens(2)] ij ij' by simp
  ultimately show False using ij(1) ij'(1) by simp
qed

text \<open>
  A pair of indices has one of two shapes; with every index listed once, the reversed
  pair is never compared as well.
\<close>

lemma considered_cases:
  assumes "(p, q) \<in> consideredPairs info"
  obtains (same) c l where "(c, l) \<in> set (vehiclesPerAntenna info)" "(p, q) \<in> laterPairs l"
  | (cross) c l c' l' where "(c, l) \<in> set (vehiclesPerAntenna info)"
      "(c', l') \<in> set (vehiclesPerAntenna info)" "c < c'" "p \<in> set l" "q \<in> set l'"
proof -
  obtain c l where cl: "(c, l) \<in> set (vehiclesPerAntenna info)"
    and pq: "(p, q) \<in> antennaPairs info (c, l)"
    using assms by (auto simp: consideredPairs_def)
  from pq consider "(p, q) \<in> laterPairs l"
    | ns where "map_of (neighborAntennas info) c = Some ns" "(p, q) \<in> crossPairs info c l ns"
    by (auto simp: antennaPairs_def split: option.splits)
  then show thesis
  proof cases
    case 1
    then show ?thesis using cl same by blast
  next
    case 2
    then obtain c' l' where "c < c'" "map_of (vehiclesPerAntenna info) c' = Some l'"
      "p \<in> set l" "q \<in> set l'"
      unfolding crossPairs_iff by blast
    moreover from this have "(c', l') \<in> set (vehiclesPerAntenna info)"
      by (simp add: map_of_SomeD)
    ultimately show ?thesis using cl cross by blast
  qed
qed

lemma considered_no_reverse:
  assumes d: "distinct (concat (map snd (vehiclesPerAntenna info)))"
    and pq: "(p, q) \<in> consideredPairs info" and qp: "(q, p) \<in> consideredPairs info"
  shows False
  using pq
proof (cases rule: considered_cases)
  case (same c l)
  note s1 = this
  have pl: "p \<in> set l" "q \<in> set l" using laterPairs_subset [OF s1(2)] by simp_all
  show False using qp
  proof (cases rule: considered_cases)
    case (same c2 l2)
    have "q \<in> set l2" using laterPairs_subset [OF same(2)] by simp
    then have "l = l2" using entry_unique [OF d s1(1) same(1) pl(2)] by simp
    then show False
      using laterPairs_no_reverse [OF entry_distinct [OF d s1(1)] s1(2)] same(2) by simp
  next
    case (cross c2 l2 c3 l3)
    have "c = c2" using entry_unique [OF d s1(1) cross(1) pl(2) cross(4)] by simp
    moreover have "c = c3" using entry_unique [OF d s1(1) cross(2) pl(1) cross(5)] by simp
    ultimately show False using cross(3) by simp
  qed
next
  case (cross c l c' l')
  note c1 = this
  show False using qp
  proof (cases rule: considered_cases)
    case (same c2 l2)
    have ql: "q \<in> set l2" "p \<in> set l2" using laterPairs_subset [OF same(2)] by simp_all
    have "c = c2" using entry_unique [OF d c1(1) same(1) c1(4) ql(2)] by simp
    moreover have "c' = c2" using entry_unique [OF d c1(2) same(1) c1(5) ql(1)] by simp
    ultimately show False using c1(3) by simp
  next
    case (cross c2 l2 c3 l3)
    have "c = c3" using entry_unique [OF d c1(1) cross(2) c1(4) cross(5)] by simp
    moreover have "c' = c2" using entry_unique [OF d c1(2) cross(1) c1(5) cross(4)] by simp
    ultimately show False using c1(3) cross(3) by simp
  qed
qed

lemma snapEdges_iff:
  "(a, b) \<in> snapEdges snapshots S \<longleftrightarrow>
     (\<exists>p q. (p, q) \<in> S \<and> validIndex snapshots p \<and> validIndex snapshots q \<and>
        withinMutualRange (snapshots ! nat p) (snapshots ! nat q) \<and>
        ((a = id_s (snapshots ! nat p) \<and> b = id_s (snapshots ! nat q)) \<or>
         (a = id_s (snapshots ! nat q) \<and> b = id_s (snapshots ! nat p))))"
  unfolding snapEdges_def pairEdges_def by (auto split: if_splits)

lemma valid_id_inj:
  assumes "distinct (map id_s snapshots)" and "validIndex snapshots p" and "validIndex snapshots q"
    and "id_s (snapshots ! nat p) = id_s (snapshots ! nat q)"
  shows "p = q"
proof -
  have "nat p < length (map id_s snapshots)" "nat q < length (map id_s snapshots)"
    using assms(2,3) by (simp_all add: validIndex_def)
  moreover have "map id_s snapshots ! nat p = map id_s snapshots ! nat q"
    using assms(2,3,4) by (simp add: validIndex_def)
  ultimately have "nat p = nat q" using nth_eq_iff_index_eq [OF assms(1)] by blast
  moreover have "0 \<le> p" "0 \<le> q" using assms(2,3) by (simp_all add: validIndex_def)
  ultimately show ?thesis by linarith
qed

subsection \<open>The antenna information that the driver assembles\<close>

lemma listed_push_back:
  "listedIndices (AList.update c ((case map_of al c of None \<Rightarrow> [] | Some l \<Rightarrow> l) @ [x]) al)
     = insert x (listedIndices al)"
  unfolding listedIndices_def by (induction al) (auto split: option.splits)

lemma distinct_push_back:
  "distinct (concat (map snd al)) \<Longrightarrow> x \<notin> listedIndices al \<Longrightarrow>
   distinct (concat (map snd
     (AList.update c ((case map_of al c of None \<Rightarrow> [] | Some l \<Rightarrow> l) @ [x]) al)))"
proof (induction al)
  case Nil
  then show ?case by simp
next
  case (Cons e al)
  obtain k l0 where e: "e = (k, l0)" by (cases e)
  show ?case
  proof (cases "k = c")
    case True
    then show ?thesis using Cons.prems by (auto simp: e listedIndices_def)
  next
    case False
    have d: "distinct (concat (map snd al))" and x: "x \<notin> listedIndices al"
      using Cons.prems by (simp_all add: listedIndices_def)
    have "listedIndices
        (AList.update c ((case map_of al c of None \<Rightarrow> [] | Some l \<Rightarrow> l) @ [x]) al)
        = insert x (listedIndices al)"
      by (rule listed_push_back)
    then have "set (concat (map snd
        (AList.update c ((case map_of al c of None \<Rightarrow> [] | Some l \<Rightarrow> l) @ [x]) al)))
        = insert x (set (concat (map snd al)))"
      unfolding listedIndices_def .
    then show ?thesis
      using False Cons.IH [OF d x] Cons.prems by (auto simp: e listedIndices_def)
  qed
qed

text \<open>
  The loop keeps every index listed at most once, and lists exactly the indices, from
  the counter on, of the snapshots with a non-negative antenna id.
\<close>

lemma assignIndices_listed:
  "listedIndices (assignIndices snaps i vpa)
     = listedIndices vpa \<union>
       {int (i + j) | j. j < length snaps \<and> microAntennaId (snaps ! j) \<ge> 0}"
proof (induction snaps arbitrary: i vpa)
  case Nil
  then show ?case by simp
next
  case (Cons snap rest)
  have split: "{int (i + j) | j. j < length (snap # rest) \<and> microAntennaId ((snap # rest) ! j) \<ge> 0}
      = (if microAntennaId snap \<ge> 0 then {int i} else {}) \<union>
        {int (Suc i + j) | j. j < length rest \<and> microAntennaId (rest ! j) \<ge> 0}"
  proof (intro set_eqI iffI)
    fix x
    assume "x \<in> {int (i + j) | j. j < length (snap # rest) \<and> microAntennaId ((snap # rest) ! j) \<ge> 0}"
    then obtain j where j: "x = int (i + j)" "j < length (snap # rest)"
      "microAntennaId ((snap # rest) ! j) \<ge> 0" by blast
    show "x \<in> (if microAntennaId snap \<ge> 0 then {int i} else {}) \<union>
        {int (Suc i + j) | j. j < length rest \<and> microAntennaId (rest ! j) \<ge> 0}"
    proof (cases j)
      case 0
      then show ?thesis using j by simp
    next
      case (Suc j')
      then have "x = int (Suc i + j') \<and> j' < length rest \<and> microAntennaId (rest ! j') \<ge> 0"
        using j by simp
      then show ?thesis by blast
    qed
  next
    fix x
    assume "x \<in> (if microAntennaId snap \<ge> 0 then {int i} else {}) \<union>
        {int (Suc i + j) | j. j < length rest \<and> microAntennaId (rest ! j) \<ge> 0}"
    then consider "microAntennaId snap \<ge> 0" "x = int i"
      | j where "x = int (Suc i + j)" "j < length rest" "microAntennaId (rest ! j) \<ge> 0"
      by (auto split: if_splits)
    then show "x \<in> {int (i + j) | j. j < length (snap # rest) \<and> microAntennaId ((snap # rest) ! j) \<ge> 0}"
    proof cases
      case 1
      then have "x = int (i + 0) \<and> 0 < length (snap # rest) \<and> microAntennaId ((snap # rest) ! 0) \<ge> 0"
        by simp
      then show ?thesis by blast
    next
      case 2
      then have "x = int (i + Suc j) \<and> Suc j < length (snap # rest) \<and>
          microAntennaId ((snap # rest) ! Suc j) \<ge> 0"
        by simp
      then show ?thesis by blast
    qed
  qed
  show ?case
  proof (cases "microAntennaId snap \<ge> 0")
    case True
    then show ?thesis
      unfolding split by (simp add: Cons.IH Let_def listed_push_back Un_assoc)
  next
    case False
    then show ?thesis
      unfolding split by (simp add: Cons.IH Let_def)
  qed
qed

lemma assignIndices_distinct:
  "distinct (concat (map snd vpa)) \<Longrightarrow> (\<forall>x \<in> listedIndices vpa. x < int i) \<Longrightarrow>
   distinct (concat (map snd (assignIndices snaps i vpa)))"
proof (induction snaps arbitrary: i vpa)
  case Nil
  then show ?case by simp
next
  case (Cons snap rest)
  show ?case
  proof (cases "microAntennaId snap \<ge> 0")
    case False
    have "\<forall>x \<in> listedIndices vpa. x < int (Suc i)" using Cons.prems(2) by fastforce
    then show ?thesis using False Cons.IH [OF Cons.prems(1)] by (simp add: Let_def)
  next
    case True
    let ?vpa = "AList.update (microAntennaId snap)
        ((case map_of vpa (microAntennaId snap) of None \<Rightarrow> [] | Some l \<Rightarrow> l) @ [int i]) vpa"
    have fresh: "int i \<notin> listedIndices vpa" using Cons.prems(2) by auto
    have d: "distinct (concat (map snd ?vpa))"
      by (rule distinct_push_back [OF Cons.prems(1) fresh])
    have "listedIndices ?vpa = insert (int i) (listedIndices vpa)"
      by (rule listed_push_back)
    then have b: "\<forall>x \<in> listedIndices ?vpa. x < int (Suc i)"
      using Cons.prems(2) by fastforce
    show ?thesis using True Cons.IH [OF d b] by (simp add: Let_def)
  qed
qed

text \<open>
  What the driver hands to the builder meets the condition of the edge theorem of the
  antenna branch, and leaves out the snapshots with a negative antenna id.
\<close>

lemma assembled_lists_once:
  "distinct (concat (map snd (vehiclesPerAntenna (assembleAntennaInfo snapshots neighborMicroIds))))"
  using assignIndices_distinct [of "[]" 0 snapshots]
  by (simp add: assembleAntennaInfo_def listedIndices_def)

lemma assembled_unlisted:
  assumes "k < length snapshots" and "microAntennaId (snapshots ! k) < 0"
  shows "\<forall>entry \<in> set (vehiclesPerAntenna (assembleAntennaInfo snapshots neighborMicroIds)).
           int k \<notin> set (snd entry)"
proof
  fix entry
  assume e: "entry \<in> set (vehiclesPerAntenna (assembleAntennaInfo snapshots neighborMicroIds))"
  show "int k \<notin> set (snd entry)"
  proof
    assume "int k \<in> set (snd entry)"
    then have "int k \<in> listedIndices (assignIndices snapshots 0 [])"
      using e by (auto simp: assembleAntennaInfo_def listedIndices_def)
    then obtain j where "int k = int (0 + j)" "j < length snapshots"
      "microAntennaId (snapshots ! j) \<ge> 0"
      unfolding assignIndices_listed by (auto simp: listedIndices_def)
    then show False using assms(2) by simp
  qed
qed

subsection \<open>Edges of the antenna branch\<close>

lemma antenna_edge_iff:
  assumes ids: "distinct (map id_s snapshots)"
    and d: "distinct (concat (map snd (vehiclesPerAntenna info)))"
    and vp: "validIndex snapshots p" and vq: "validIndex snapshots q"
    and pq: "(p, q) \<in> consideredPairs info"
  shows "(id_s (snapshots ! nat p), id_s (snapshots ! nat q))
           \<in> adjEdges (m_adjacencyList (buildGraphFromSnapshots g snapshots (Some info)))
         \<longleftrightarrow> withinMutualRange (snapshots ! nat p) (snapshots ! nat q)"
proof -
  have ne: "snapshots \<noteq> []" using vp by (auto simp: validIndex_def)
  have vne: "vehiclesPerAntenna info \<noteq> []" using pq by (auto simp: consideredPairs_def)
  note edges = build_antennas_edges [OF ne vne, of g]
  show ?thesis
  proof
    assume "withinMutualRange (snapshots ! nat p) (snapshots ! nat q)"
    then show "(id_s (snapshots ! nat p), id_s (snapshots ! nat q))
           \<in> adjEdges (m_adjacencyList (buildGraphFromSnapshots g snapshots (Some info)))"
      unfolding edges snapEdges_iff using pq vp vq by blast
  next
    assume "(id_s (snapshots ! nat p), id_s (snapshots ! nat q))
           \<in> adjEdges (m_adjacencyList (buildGraphFromSnapshots g snapshots (Some info)))"
    then obtain p' q' where c: "(p', q') \<in> consideredPairs info"
      and v: "validIndex snapshots p'" "validIndex snapshots q'"
      and w: "withinMutualRange (snapshots ! nat p') (snapshots ! nat q')"
      and e: "(id_s (snapshots ! nat p) = id_s (snapshots ! nat p') \<and>
               id_s (snapshots ! nat q) = id_s (snapshots ! nat q')) \<or>
              (id_s (snapshots ! nat p) = id_s (snapshots ! nat q') \<and>
               id_s (snapshots ! nat q) = id_s (snapshots ! nat p'))"
      unfolding edges snapEdges_iff by blast
    from e show "withinMutualRange (snapshots ! nat p) (snapshots ! nat q)"
    proof
      assume "id_s (snapshots ! nat p) = id_s (snapshots ! nat p') \<and>
               id_s (snapshots ! nat q) = id_s (snapshots ! nat q')"
      then have "p = p'" "q = q'"
        using valid_id_inj [OF ids vp v(1)] valid_id_inj [OF ids vq v(2)] by simp_all
      then show ?thesis using w by simp
    next
      assume "id_s (snapshots ! nat p) = id_s (snapshots ! nat q') \<and>
               id_s (snapshots ! nat q) = id_s (snapshots ! nat p')"
      then have "p = q'" "q = p'"
        using valid_id_inj [OF ids vp v(2)] valid_id_inj [OF ids vq v(1)] by simp_all
      then have False using considered_no_reverse [OF d pq] c by simp
      then show ?thesis ..
    qed
  qed
qed

text \<open>
  C1: in the antenna branch, for snapshots with pairwise different ids and an antenna
  information that lists every snapshot index at most once (the one that the driver
  assembles does), a pair of valid indices that the builder compares (two entries \<open>i < j\<close> of one antenna's list, or a vehicle of an
  antenna and a vehicle of a neighbour antenna with a larger id) is joined by an edge, in
  both directions, exactly when the distance \<open>d\<close> is at most the range of each of the
  two, where \<open>d = sqrt (dx\<^sup>2 + dy\<^sup>2)\<close>, \<open>dy = (lat\<^sub>q - lat\<^sub>p) * 111000\<close> and
  \<open>dx = (lon\<^sub>q - lon\<^sub>p) * 111000 * cos (lat\<^sub>p * pi / 180)\<close>.
\<close>

theorem antenna_edge_iff_mutual_range:
  assumes "distinct (map id_s snapshots)"
    and "info = assembleAntennaInfo snapshots neighborMicroIds \<or>
         distinct (concat (map snd (vehiclesPerAntenna info)))"
    and "validIndex snapshots p" and "validIndex snapshots q"
    and "sameAntennaPair info p q \<or> neighborAntennaPair info p q"
  shows "(id_s (snapshots ! nat q)
            \<in> set (getDirectNeighbors (buildGraphFromSnapshots g snapshots (Some info))
                     (id_s (snapshots ! nat p)))
          \<longleftrightarrow> snapshotDistance (snapshots ! nat p) (snapshots ! nat q)
                \<le> transmissionRange (snapshots ! nat p) \<and>
              snapshotDistance (snapshots ! nat p) (snapshots ! nat q)
                \<le> transmissionRange (snapshots ! nat q)) \<and>
         (id_s (snapshots ! nat p)
            \<in> set (getDirectNeighbors (buildGraphFromSnapshots g snapshots (Some info))
                     (id_s (snapshots ! nat q)))
          \<longleftrightarrow> snapshotDistance (snapshots ! nat p) (snapshots ! nat q)
                \<le> transmissionRange (snapshots ! nat p) \<and>
              snapshotDistance (snapshots ! nat p) (snapshots ! nat q)
                \<le> transmissionRange (snapshots ! nat q)) \<and>
         snapshotDistance (snapshots ! nat p) (snapshots ! nat q)
           = sqrt (((lat (snapshots ! nat q) - lat (snapshots ! nat p)) * 111000)\<^sup>2
                   + ((lon (snapshots ! nat q) - lon (snapshots ! nat p)) * 111000
                        * cos (lat (snapshots ! nat p) * pi / 180))\<^sup>2)"
proof -
  let ?g = "buildGraphFromSnapshots g snapshots (Some info)"
  let ?a = "id_s (snapshots ! nat p)" and ?b = "id_s (snapshots ! nat q)"
  have once: "distinct (concat (map snd (vehiclesPerAntenna info)))"
    using assms(2) assembled_lists_once by blast
  have pq: "(p, q) \<in> consideredPairs info" using assms(5) by (simp add: consideredPairs_iff)
  have fwd: "(?a, ?b) \<in> adjEdges (m_adjacencyList ?g)
      \<longleftrightarrow> withinMutualRange (snapshots ! nat p) (snapshots ! nat q)"
    by (rule antenna_edge_iff [OF assms(1) once assms(3,4) pq])
  have bwd: "(?b, ?a) \<in> adjEdges (m_adjacencyList ?g) \<longleftrightarrow> (?a, ?b) \<in> adjEdges (m_adjacencyList ?g)"
    using build_snapshots_sym [of ?a ?b g snapshots "Some info"]
      build_snapshots_sym [of ?b ?a g snapshots "Some info"] by auto
  have d: "snapshotDistance (snapshots ! nat p) (snapshots ! nat q)
           = sqrt (((lat (snapshots ! nat q) - lat (snapshots ! nat p)) * 111000)\<^sup>2
                   + ((lon (snapshots ! nat q) - lon (snapshots ! nat p)) * 111000
                        * cos (lat (snapshots ! nat p) * pi / 180))\<^sup>2)"
    unfolding snapshotDistance_def Let_def power2_eq_square by (rule refl)
  have fwd': "?b \<in> set (getDirectNeighbors ?g ?a)
      \<longleftrightarrow> withinMutualRange (snapshots ! nat p) (snapshots ! nat q)"
    using fwd unfolding adjEdges_getDirectNeighbors .
  have bwd': "?a \<in> set (getDirectNeighbors ?g ?b)
      \<longleftrightarrow> withinMutualRange (snapshots ! nat p) (snapshots ! nat q)"
    using fwd bwd unfolding adjEdges_getDirectNeighbors by simp
  show ?thesis
  proof (intro conjI)
    show "?b \<in> set (getDirectNeighbors ?g ?a)
          \<longleftrightarrow> snapshotDistance (snapshots ! nat p) (snapshots ! nat q)
                \<le> transmissionRange (snapshots ! nat p) \<and>
              snapshotDistance (snapshots ! nat p) (snapshots ! nat q)
                \<le> transmissionRange (snapshots ! nat q)"
      using fwd' unfolding withinMutualRange_def .
    show "?a \<in> set (getDirectNeighbors ?g ?b)
          \<longleftrightarrow> snapshotDistance (snapshots ! nat p) (snapshots ! nat q)
                \<le> transmissionRange (snapshots ! nat p) \<and>
              snapshotDistance (snapshots ! nat p) (snapshots ! nat q)
                \<le> transmissionRange (snapshots ! nat q)"
      using bwd' unfolding withinMutualRange_def .
    show "snapshotDistance (snapshots ! nat p) (snapshots ! nat q)
           = sqrt (((lat (snapshots ! nat q) - lat (snapshots ! nat p)) * 111000)\<^sup>2
                   + ((lon (snapshots ! nat q) - lon (snapshots ! nat p)) * 111000
                        * cos (lat (snapshots ! nat p) * pi / 180))\<^sup>2)"
      by (rule d)
  qed
qed

theorem antenna_edge_iff_mutual_range_witness:
  "snapshotDistance
     \<lparr>id_s = 1, lon = 0, lat = 0, transmissionRange = 100, microAntennaId = 0\<rparr>
     \<lparr>id_s = 2, lon = 0, lat = 75 / 111000, transmissionRange = 50, microAntennaId = 0\<rparr> = 75 \<and>
   2 \<notin> set (getDirectNeighbors
     (buildGraphFromSnapshots InterferenceGraph_new
        [\<lparr>id_s = 1, lon = 0, lat = 0, transmissionRange = 100, microAntennaId = 0\<rparr>,
         \<lparr>id_s = 2, lon = 0, lat = 75 / 111000, transmissionRange = 50, microAntennaId = 0\<rparr>,
         \<lparr>id_s = 3, lon = 0, lat = 0, transmissionRange = 100, microAntennaId = 0\<rparr>]
        (Some (assembleAntennaInfo
           [\<lparr>id_s = 1, lon = 0, lat = 0, transmissionRange = 100, microAntennaId = 0\<rparr>,
            \<lparr>id_s = 2, lon = 0, lat = 75 / 111000, transmissionRange = 50, microAntennaId = 0\<rparr>,
            \<lparr>id_s = 3, lon = 0, lat = 0, transmissionRange = 100, microAntennaId = 0\<rparr>]
           [(0, [])]))) 1) \<and>
   3 \<in> set (getDirectNeighbors
     (buildGraphFromSnapshots InterferenceGraph_new
        [\<lparr>id_s = 1, lon = 0, lat = 0, transmissionRange = 100, microAntennaId = 0\<rparr>,
         \<lparr>id_s = 2, lon = 0, lat = 75 / 111000, transmissionRange = 50, microAntennaId = 0\<rparr>,
         \<lparr>id_s = 3, lon = 0, lat = 0, transmissionRange = 100, microAntennaId = 0\<rparr>]
        (Some (assembleAntennaInfo
           [\<lparr>id_s = 1, lon = 0, lat = 0, transmissionRange = 100, microAntennaId = 0\<rparr>,
            \<lparr>id_s = 2, lon = 0, lat = 75 / 111000, transmissionRange = 50, microAntennaId = 0\<rparr>,
            \<lparr>id_s = 3, lon = 0, lat = 0, transmissionRange = 100, microAntennaId = 0\<rparr>]
           [(0, [])]))) 1)"
proof -
  let ?s0 = "\<lparr>id_s = 1, lon = 0, lat = 0, transmissionRange = 100, microAntennaId = 0\<rparr>"
  let ?s1 = "\<lparr>id_s = 2, lon = 0, lat = 75 / 111000, transmissionRange = 50, microAntennaId = 0\<rparr>"
  let ?s2 = "\<lparr>id_s = 3, lon = 0, lat = 0, transmissionRange = 100, microAntennaId = 0\<rparr>"
  let ?info = "\<lparr>vehiclesPerAntenna = [(0, [0, 1, 2])], neighborAntennas = [(0, [])]\<rparr>"
  have info: "assembleAntennaInfo [?s0, ?s1, ?s2] [(0, [])] = ?info"
    by (simp add: assembleAntennaInfo_def)
  have drv: "?info = assembleAntennaInfo [?s0, ?s1, ?s2] [(0, [])] \<or>
      distinct (concat (map snd (vehiclesPerAntenna ?info)))"
    using info by simp
  have ids: "distinct (map id_s [?s0, ?s1, ?s2])" by simp
  have v0: "validIndex [?s0, ?s1, ?s2] 0" and v1: "validIndex [?s0, ?s1, ?s2] 1"
    and v2: "validIndex [?s0, ?s1, ?s2] 2"
    by (simp_all add: validIndex_def)
  have "(0, [0, 1, 2]) \<in> set (vehiclesPerAntenna ?info) \<and>
        (0::nat) < 1 \<and> (1::nat) < length [0, 1, 2 :: int] \<and>
        [0, 1, 2 :: int] ! 0 = 0 \<and> [0, 1, 2 :: int] ! 1 = 1"
    by simp
  then have p01: "sameAntennaPair ?info 0 1"
    unfolding sameAntennaPair_def by blast
  have "(0, [0, 1, 2]) \<in> set (vehiclesPerAntenna ?info) \<and>
        (0::nat) < 2 \<and> (2::nat) < length [0, 1, 2 :: int] \<and>
        [0, 1, 2 :: int] ! 0 = 0 \<and> [0, 1, 2 :: int] ! 2 = 2"
    by simp
  then have p02: "sameAntennaPair ?info 0 2"
    unfolding sameAntennaPair_def by blast
  have d01: "snapshotDistance ?s0 ?s1 = 75" and d02: "snapshotDistance ?s0 ?s2 = 0"
    by (simp_all add: snapshotDistance_same_lon)
  show ?thesis
    using antenna_edge_iff_mutual_range [OF ids drv v0 v1 disjI1 [OF p01], of InterferenceGraph_new]
      antenna_edge_iff_mutual_range [OF ids drv v0 v2 disjI1 [OF p02], of InterferenceGraph_new]
      d01 d02
    unfolding info by (simp del: snapshotDistance_def)
qed

subsection \<open>The fallback\<close>

lemma pairEdges_iff:
  "(a, b) \<in> pairEdges v1 v2 \<longleftrightarrow>
     withinMutualRange v1 v2 \<and>
     ((a = id_s v1 \<and> b = id_s v2) \<or> (a = id_s v2 \<and> b = id_s v1))"
  by (auto simp: pairEdges_def)

text \<open>
  C7: for a non-empty snapshot list, when the antenna information is absent or has no
  antenna with vehicles, the builder compares every pair \<open>i < j\<close> of snapshots once
  (\<open>n (n - 1) / 2\<close> comparisons) with the distance and the two-sided range test of the
  antenna branch, and the adjacency holds exactly the pairs within mutual range.
\<close>

theorem fallback_compares_all_pairs:
  assumes "snapshots \<noteq> []"
    and "antennaInfo = None \<or> (\<exists>info. antennaInfo = Some info \<and> vehiclesPerAntenna info = [])"
  shows "(b \<in> set (getDirectNeighbors (buildGraphFromSnapshots g snapshots antennaInfo) a)
          \<longleftrightarrow> (\<exists>i j. i < j \<and> j < length snapshots \<and>
                 snapshotDistance (snapshots ! i) (snapshots ! j)
                   \<le> transmissionRange (snapshots ! i) \<and>
                 snapshotDistance (snapshots ! i) (snapshots ! j)
                   \<le> transmissionRange (snapshots ! j) \<and>
                 ((a = id_s (snapshots ! i) \<and> b = id_s (snapshots ! j)) \<or>
                  (a = id_s (snapshots ! j) \<and> b = id_s (snapshots ! i))))) \<and>
         m_lastComparisons (buildGraphFromSnapshots g snapshots antennaInfo)
           = of_nat (length snapshots * (length snapshots - 1) div 2)"
proof -
  let ?g = "buildGraphFromSnapshots g snapshots antennaInfo"
  have no: "\<not> usesAntennas antennaInfo"
    using assms(2) by (auto simp: usesAntennas_def)
  have "b \<in> set (getDirectNeighbors ?g a)
        \<longleftrightarrow> (a, b) \<in> (\<Union>(v1, v2) \<in> laterPairs snapshots. pairEdges v1 v2)"
    unfolding adjEdges_getDirectNeighbors [symmetric] build_fallback_edges [OF assms(1) no] ..
  also have "\<dots> \<longleftrightarrow> (\<exists>v1 v2. (v1, v2) \<in> laterPairs snapshots \<and> (a, b) \<in> pairEdges v1 v2)"
    by auto
  also have "\<dots> \<longleftrightarrow> (\<exists>v1 v2. (v1, v2) \<in> laterPairs snapshots \<and> withinMutualRange v1 v2 \<and>
       ((a = id_s v1 \<and> b = id_s v2) \<or> (a = id_s v2 \<and> b = id_s v1)))"
    unfolding pairEdges_iff ..
  also have "\<dots> \<longleftrightarrow> (\<exists>i j. i < j \<and> j < length snapshots \<and>
                 withinMutualRange (snapshots ! i) (snapshots ! j) \<and>
                 ((a = id_s (snapshots ! i) \<and> b = id_s (snapshots ! j)) \<or>
                  (a = id_s (snapshots ! j) \<and> b = id_s (snapshots ! i))))"
    unfolding laterPairs_iff by blast
  finally have edges: "b \<in> set (getDirectNeighbors ?g a)
          \<longleftrightarrow> (\<exists>i j. i < j \<and> j < length snapshots \<and>
                 withinMutualRange (snapshots ! i) (snapshots ! j) \<and>
                 ((a = id_s (snapshots ! i) \<and> b = id_s (snapshots ! j)) \<or>
                  (a = id_s (snapshots ! j) \<and> b = id_s (snapshots ! i))))" .
  have count: "m_lastComparisons ?g = of_nat (length snapshots * (length snapshots - 1) div 2)"
    by (simp add: build_fallback_state(2) [OF assms(1) no] snd_compareAllPairs)
  show ?thesis
    using edges count unfolding withinMutualRange_def by (simp add: conj_assoc)
qed

theorem fallback_compares_all_pairs_witness:
  "m_lastComparisons
     (buildGraphFromSnapshots InterferenceGraph_new
        [\<lparr>id_s = 1, lon = 0, lat = 0, transmissionRange = 100, microAntennaId = -1\<rparr>,
         \<lparr>id_s = 2, lon = 0, lat = 75 / 111000, transmissionRange = 100, microAntennaId = -1\<rparr>,
         \<lparr>id_s = 3, lon = 0, lat = 150 / 111000, transmissionRange = 50, microAntennaId = -1\<rparr>]
        (Some \<lparr>vehiclesPerAntenna = [], neighborAntennas = []\<rparr>)) = 3 \<and>
   getDirectNeighbors
     (buildGraphFromSnapshots InterferenceGraph_new
        [\<lparr>id_s = 1, lon = 0, lat = 0, transmissionRange = 100, microAntennaId = -1\<rparr>,
         \<lparr>id_s = 2, lon = 0, lat = 75 / 111000, transmissionRange = 100, microAntennaId = -1\<rparr>,
         \<lparr>id_s = 3, lon = 0, lat = 150 / 111000, transmissionRange = 50, microAntennaId = -1\<rparr>]
        (Some \<lparr>vehiclesPerAntenna = [], neighborAntennas = []\<rparr>)) 2 = [1] \<and>
   3 \<notin> set (getDirectNeighbors
     (buildGraphFromSnapshots InterferenceGraph_new
        [\<lparr>id_s = 1, lon = 0, lat = 0, transmissionRange = 100, microAntennaId = -1\<rparr>,
         \<lparr>id_s = 2, lon = 0, lat = 75 / 111000, transmissionRange = 100, microAntennaId = -1\<rparr>,
         \<lparr>id_s = 3, lon = 0, lat = 150 / 111000, transmissionRange = 50, microAntennaId = -1\<rparr>]
        (Some \<lparr>vehiclesPerAntenna = [], neighborAntennas = []\<rparr>)) 2)"
proof -
  let ?snaps = "[\<lparr>id_s = 1, lon = 0, lat = 0, transmissionRange = 100, microAntennaId = -1\<rparr>,
         \<lparr>id_s = 2, lon = 0, lat = 75 / 111000, transmissionRange = 100, microAntennaId = -1\<rparr>,
         \<lparr>id_s = 3, lon = 0, lat = 150 / 111000, transmissionRange = 50, microAntennaId = -1\<rparr>]"
  let ?info = "\<lparr>vehiclesPerAntenna = [], neighborAntennas = []\<rparr>"
  have ne: "?snaps \<noteq> []" by simp
  have empty: "Some ?info = None \<or> (\<exists>info. Some ?info = Some info \<and> vehiclesPerAntenna info = [])"
    by simp
  have count: "m_lastComparisons (buildGraphFromSnapshots InterferenceGraph_new ?snaps (Some ?info)) = 3"
    using fallback_compares_all_pairs [OF ne empty, of 3 InterferenceGraph_new 2] by simp
  have nbrs: "getDirectNeighbors (buildGraphFromSnapshots InterferenceGraph_new ?snaps (Some ?info)) 2 = [1]"
    by (simp add: InterferenceGraph_new_def buildGraphFromSnapshots_def initAdjacency_def
      compareSnapshots_def connectIfInRange_def snapshotDistance_same_lon adjInsert_def
      getDirectNeighbors_def)
  show ?thesis using count nbrs by simp
qed

subsection \<open>Snapshots outside every antenna list\<close>

lemma considered_listed:
  assumes "(p, q) \<in> consideredPairs info"
  shows "(\<exists>entry \<in> set (vehiclesPerAntenna info). p \<in> set (snd entry)) \<and>
         (\<exists>entry \<in> set (vehiclesPerAntenna info). q \<in> set (snd entry))"
  using assms
proof (cases rule: considered_cases)
  case (same c l)
  have "p \<in> set (snd (c, l))" "q \<in> set (snd (c, l))"
    using laterPairs_subset [OF same(2)] by simp_all
  then show ?thesis using same(1) by blast
next
  case (cross c l c' l')
  have "p \<in> set (snd (c, l))" "q \<in> set (snd (c', l'))"
    using cross(4,5) by simp_all
  then show ?thesis using cross(1,2) by blast
qed

lemma key_has_entry: "k \<in> fst ` set al \<Longrightarrow> \<exists>v. map_of al k = Some v"
  by (cases "map_of al k") (simp_all add: map_of_eq_None_iff)

text \<open>
  C9: in the antenna branch, a snapshot whose index is in no antenna's vehicle list
  (ids being pairwise different) ends the build with the empty adjacency set, and no
  other vehicle has it as a neighbour. A snapshot with a negative micro antenna id is in
  no vehicle list of the antenna information that the driver assembles.
\<close>

theorem unlisted_snapshot_has_no_edges:
  assumes "distinct (map id_s snapshots)"
    and "vehiclesPerAntenna info \<noteq> []"
    and "k < length snapshots"
    and "\<forall>entry \<in> set (vehiclesPerAntenna info). int k \<notin> set (snd entry)"
  shows "map_of (m_adjacencyList (buildGraphFromSnapshots g snapshots (Some info)))
           (id_s (snapshots ! k)) = Some [] \<and>
         (\<forall>a. id_s (snapshots ! k)
                 \<notin> set (getDirectNeighbors (buildGraphFromSnapshots g snapshots (Some info)) a)) \<and>
         (microAntennaId (snapshots ! k) < 0 \<longrightarrow>
            (\<forall>entry \<in> set (vehiclesPerAntenna (assembleAntennaInfo snapshots neighborMicroIds)).
               int k \<notin> set (snd entry)))"
proof -
  let ?g = "buildGraphFromSnapshots g snapshots (Some info)"
  let ?id = "id_s (snapshots ! k)"
  have ne: "snapshots \<noteq> []" using assms(3) by auto
  note edges = build_antennas_edges [OF ne assms(2), of g]
  have vk: "validIndex snapshots (int k)" using assms(3) by (simp add: validIndex_def)
  have isolated: "a \<noteq> ?id \<and> b \<noteq> ?id" if ab: "(a, b) \<in> adjEdges (m_adjacencyList ?g)" for a b
  proof -
    have "(a, b) \<in> snapEdges snapshots (consideredPairs info)"
      using ab unfolding edges .
    then obtain p q where c: "(p, q) \<in> consideredPairs info"
      and v: "validIndex snapshots p" "validIndex snapshots q"
      and e: "(a = id_s (snapshots ! nat p) \<and> b = id_s (snapshots ! nat q)) \<or>
              (a = id_s (snapshots ! nat q) \<and> b = id_s (snapshots ! nat p))"
      unfolding snapEdges_iff by blast
    obtain e1 e2 where e1: "e1 \<in> set (vehiclesPerAntenna info)" "p \<in> set (snd e1)"
      and e2: "e2 \<in> set (vehiclesPerAntenna info)" "q \<in> set (snd e2)"
      using considered_listed [OF c] by blast
    have "int k \<notin> set (snd e1)" "int k \<notin> set (snd e2)"
      using assms(4) e1(1) e2(1) by simp_all
    then have pk: "p \<noteq> int k" and qk: "q \<noteq> int k" using e1(2) e2(2) by auto
    have np: "id_s (snapshots ! nat p) \<noteq> ?id"
    proof
      assume "id_s (snapshots ! nat p) = ?id"
      then have "id_s (snapshots ! nat p) = id_s (snapshots ! nat (int k))" by simp
      from valid_id_inj [OF assms(1) v(1) vk this] pk show False by simp
    qed
    have nq: "id_s (snapshots ! nat q) \<noteq> ?id"
    proof
      assume "id_s (snapshots ! nat q) = ?id"
      then have "id_s (snapshots ! nat q) = id_s (snapshots ! nat (int k))" by simp
      from valid_id_inj [OF assms(1) v(2) vk this] qk show False by simp
    qed
    from e np nq show ?thesis by auto
  qed
  have "?id \<in> id_s ` set snapshots" using assms(3) by simp
  then have "?id \<in> fst ` set (m_adjacencyList ?g)"
    using build_keys_antennas [OF ne assms(2), of g] by (rule set_mp [rotated])
  from key_has_entry [OF this]
  obtain s where s: "map_of (m_adjacencyList ?g) ?id = Some s" ..
  have "s = []"
  proof (cases s)
    case Nil
    then show ?thesis .
  next
    case (Cons b bs)
    then have "(?id, b) \<in> adjEdges (m_adjacencyList ?g)"
      using s by (simp add: adjEdges_def)
    from isolated [OF this] show ?thesis by simp
  qed
  then have first: "map_of (m_adjacencyList ?g) ?id = Some []" using s by simp
  have second: "?id \<notin> set (getDirectNeighbors ?g a)" for a
  proof
    assume "?id \<in> set (getDirectNeighbors ?g a)"
    then have "(a, ?id) \<in> adjEdges (m_adjacencyList ?g)"
      unfolding adjEdges_getDirectNeighbors .
    from isolated [OF this] show False by simp
  qed
  have third: "microAntennaId (snapshots ! k) < 0 \<longrightarrow>
            (\<forall>entry \<in> set (vehiclesPerAntenna (assembleAntennaInfo snapshots neighborMicroIds)).
               int k \<notin> set (snd entry))"
    using assembled_unlisted [OF assms(3)] by blast
  show ?thesis using first second third by (intro conjI allI) simp_all
qed

theorem unlisted_snapshot_has_no_edges_witness:
  "map_of (m_adjacencyList
     (buildGraphFromSnapshots InterferenceGraph_new
        [\<lparr>id_s = 1, lon = 0, lat = 0, transmissionRange = 500, microAntennaId = 0\<rparr>,
         \<lparr>id_s = 2, lon = 0, lat = 0, transmissionRange = 500, microAntennaId = -1\<rparr>,
         \<lparr>id_s = 3, lon = 0, lat = 0, transmissionRange = 500, microAntennaId = 0\<rparr>]
        (Some (assembleAntennaInfo
          [\<lparr>id_s = 1, lon = 0, lat = 0, transmissionRange = 500, microAntennaId = 0\<rparr>,
           \<lparr>id_s = 2, lon = 0, lat = 0, transmissionRange = 500, microAntennaId = -1\<rparr>,
           \<lparr>id_s = 3, lon = 0, lat = 0, transmissionRange = 500, microAntennaId = 0\<rparr>]
          [(0, [])])))) 2 = Some [] \<and>
   snapshotDistance
     \<lparr>id_s = 2, lon = 0, lat = 0, transmissionRange = 500, microAntennaId = -1\<rparr>
     \<lparr>id_s = 1, lon = 0, lat = 0, transmissionRange = 500, microAntennaId = 0\<rparr> = 0 \<and>
   getDirectNeighbors
     (buildGraphFromSnapshots InterferenceGraph_new
        [\<lparr>id_s = 1, lon = 0, lat = 0, transmissionRange = 500, microAntennaId = 0\<rparr>,
         \<lparr>id_s = 2, lon = 0, lat = 0, transmissionRange = 500, microAntennaId = -1\<rparr>,
         \<lparr>id_s = 3, lon = 0, lat = 0, transmissionRange = 500, microAntennaId = 0\<rparr>]
        (Some (assembleAntennaInfo
          [\<lparr>id_s = 1, lon = 0, lat = 0, transmissionRange = 500, microAntennaId = 0\<rparr>,
           \<lparr>id_s = 2, lon = 0, lat = 0, transmissionRange = 500, microAntennaId = -1\<rparr>,
           \<lparr>id_s = 3, lon = 0, lat = 0, transmissionRange = 500, microAntennaId = 0\<rparr>]
          [(0, [])]))) 1 = [3]"
proof -
  let ?snaps = "[\<lparr>id_s = 1, lon = 0, lat = 0, transmissionRange = 500, microAntennaId = 0\<rparr>,
         \<lparr>id_s = 2, lon = 0, lat = 0, transmissionRange = 500, microAntennaId = -1\<rparr>,
         \<lparr>id_s = 3, lon = 0, lat = 0, transmissionRange = 500, microAntennaId = 0\<rparr>]"
  let ?info = "\<lparr>vehiclesPerAntenna = [(0, [0, 2])], neighborAntennas = [(0, [])]\<rparr>"
  have info: "assembleAntennaInfo ?snaps [(0, [])] = ?info"
    by (simp add: assembleAntennaInfo_def)
  have ids: "distinct (map id_s ?snaps)" by simp
  have ne: "vehiclesPerAntenna ?info \<noteq> []" by simp
  have k: "(1::nat) < length ?snaps" by simp
  have unlisted: "\<forall>entry \<in> set (vehiclesPerAntenna ?info). int 1 \<notin> set (snd entry)" by simp
  have isolated: "map_of (m_adjacencyList
     (buildGraphFromSnapshots InterferenceGraph_new ?snaps (Some ?info))) 2 = Some []"
    using unlisted_snapshot_has_no_edges [OF ids ne k unlisted, of InterferenceGraph_new] by simp
  have nbrs: "getDirectNeighbors (buildGraphFromSnapshots InterferenceGraph_new ?snaps (Some ?info)) 1 = [3]"
    by (simp add: InterferenceGraph_new_def buildGraphFromSnapshots_def initAdjacency_def
      compareSnapshots_def connectIfInRange_def snapshotDistance_same_lon adjInsert_def
      getDirectNeighbors_def validIndex_def)
  show ?thesis unfolding info using isolated nbrs by (simp add: snapshotDistance_same_lon)
qed

subsection \<open>The breadth-first search computes reachability\<close>

lemma visitNeighbors_sets:
  "set (fst (visitNeighbors ns (vis, q))) = set vis \<union> set ns \<and>
   set (snd (visitNeighbors ns (vis, q))) = set q \<union> (set ns - set vis)"
  by (induction ns arbitrary: vis q) auto

lemma adjEdges_Image:
  "adjEdges adj `` {c} = (case map_of adj c of None \<Rightarrow> {} | Some ns \<Rightarrow> set ns)"
  by (auto simp: adjEdges_def split: option.splits)

text \<open>Everything the loop marks lies in every set that is closed and holds the start.\<close>

lemma bfsLoop_sound:
  "set vis \<subseteq> S \<Longrightarrow> set q \<subseteq> S \<Longrightarrow> adjEdges adj `` S \<subseteq> S \<Longrightarrow>
   set (bfsLoop adj vis q) \<subseteq> S"
proof (induction adj vis q rule: bfsLoop.induct)
  case (1 adj visited)
  then show ?case by simp
next
  case (2 adj visited currentId toVisit)
  show ?case
  proof (cases "map_of adj currentId")
    case None
    then show ?thesis using 2 by simp
  next
    case (Some ns)
    obtain vis' q' where vq: "visitNeighbors ns (visited, toVisit) = (vis', q')"
      by (cases "visitNeighbors ns (visited, toVisit)")
    have sets: "set vis' = set visited \<union> set ns" "set q' = set toVisit \<union> (set ns - set visited)"
      using visitNeighbors_sets [of ns visited toVisit] vq by simp_all
    have "currentId \<in> S" using "2.prems"(2) by simp
    then have "adjEdges adj `` {currentId} \<subseteq> S" using "2.prems"(3) by blast
    then have ns: "set ns \<subseteq> S" by (simp add: adjEdges_Image Some)
    have "set (bfsLoop adj vis' q') \<subseteq> S"
      using "2.IH"(2) [OF Some vq [symmetric]] sets ns "2.prems" by auto
    then show ?thesis using Some vq by simp
  qed
qed

text \<open>
  The loop invariant: the queue is marked, and the successors of every marked vertex
  that is no longer queued are marked. The result then holds the marked vertices and is
  closed under the edges.
\<close>

lemma bfsLoop_closed:
  "set q \<subseteq> set vis \<Longrightarrow> (\<forall>v \<in> set vis - set q. adjEdges adj `` {v} \<subseteq> set vis) \<Longrightarrow>
   set vis \<subseteq> set (bfsLoop adj vis q) \<and>
   adjEdges adj `` set (bfsLoop adj vis q) \<subseteq> set (bfsLoop adj vis q)"
proof (induction adj vis q rule: bfsLoop.induct)
  case (1 adj visited)
  then show ?case by auto
next
  case (2 adj visited currentId toVisit)
  show ?case
  proof (cases "map_of adj currentId")
    case None
    have "adjEdges adj `` {currentId} = {}" by (simp add: adjEdges_Image None)
    then have "\<forall>v \<in> set visited - set toVisit. adjEdges adj `` {v} \<subseteq> set visited"
      using "2.prems"(2) by auto
    moreover have "set toVisit \<subseteq> set visited" using "2.prems"(1) by simp
    ultimately show ?thesis using "2.IH"(1) [OF None] None by simp
  next
    case (Some ns)
    obtain vis' q' where vq: "visitNeighbors ns (visited, toVisit) = (vis', q')"
      by (cases "visitNeighbors ns (visited, toVisit)")
    have sets: "set vis' = set visited \<union> set ns" "set q' = set toVisit \<union> (set ns - set visited)"
      using visitNeighbors_sets [of ns visited toVisit] vq by simp_all
    have cur: "adjEdges adj `` {currentId} = set ns" by (simp add: adjEdges_Image Some)
    have a: "set q' \<subseteq> set vis'" using sets "2.prems"(1) by auto
    have b: "\<forall>v \<in> set vis' - set q'. adjEdges adj `` {v} \<subseteq> set vis'"
    proof
      fix v assume v: "v \<in> set vis' - set q'"
      then have vv: "v \<in> set visited" "v \<notin> set toVisit" using sets by auto
      show "adjEdges adj `` {v} \<subseteq> set vis'"
      proof (cases "v = currentId")
        case True
        then show ?thesis using cur sets by simp
      next
        case False
        then have "v \<in> set visited - set (currentId # toVisit)" using vv by simp
        then have "adjEdges adj `` {v} \<subseteq> set visited" using "2.prems"(2) by blast
        then show ?thesis using sets by auto
      qed
    qed
    have "set vis' \<subseteq> set (bfsLoop adj vis' q') \<and>
          adjEdges adj `` set (bfsLoop adj vis' q') \<subseteq> set (bfsLoop adj vis' q')"
      using "2.IH"(2) [OF Some vq [symmetric] a b] .
    then show ?thesis using Some vq sets by auto
  qed
qed

lemma closed_rtrancl: "s \<in> R \<Longrightarrow> E `` R \<subseteq> R \<Longrightarrow> E\<^sup>* `` {s} \<subseteq> R"
proof
  fix x assume s: "s \<in> R" and c: "E `` R \<subseteq> R" and "x \<in> E\<^sup>* `` {s}"
  then have "(s, x) \<in> E\<^sup>*" by simp
  then show "x \<in> R" using s c by (induction rule: rtrancl_induct) auto
qed

lemma bfsLoop_start: "set (bfsLoop adj [s] [s]) = (adjEdges adj)\<^sup>* `` {s}"
proof
  have "adjEdges adj `` ((adjEdges adj)\<^sup>* `` {s}) \<subseteq> (adjEdges adj)\<^sup>* `` {s}"
    by (auto intro: rtrancl_into_rtrancl)
  then show "set (bfsLoop adj [s] [s]) \<subseteq> (adjEdges adj)\<^sup>* `` {s}"
    using bfsLoop_sound [of "[s]" "(adjEdges adj)\<^sup>* `` {s}" "[s]" adj] by simp
next
  have "set [s] \<subseteq> set (bfsLoop adj [s] [s]) \<and>
        adjEdges adj `` set (bfsLoop adj [s] [s]) \<subseteq> set (bfsLoop adj [s] [s])"
    by (rule bfsLoop_closed) simp_all
  then show "(adjEdges adj)\<^sup>* `` {s} \<subseteq> set (bfsLoop adj [s] [s])"
    using closed_rtrancl [of s "set (bfsLoop adj [s] [s])" "adjEdges adj"] by simp
qed

lemma set_bfsReachable:
  "set (bfsReachable adj s) = {j. j \<noteq> s \<and> (s, j) \<in> (adjEdges adj)\<^sup>+}"
proof -
  have "set (bfsReachable adj s) = (adjEdges adj)\<^sup>* `` {s} - {s}"
    by (simp add: bfsReachable_def bfsLoop_start del: bfsLoop.simps)
  also have "\<dots> = {j. j \<noteq> s \<and> (s, j) \<in> (adjEdges adj)\<^sup>+}"
    by (auto simp: rtrancl_eq_or_trancl)
  finally show ?thesis .
qed

lemma map_of_closure_fold:
  "map_of (fold (\<lambda>(vehicleId, neighbors). AList.update vehicleId (f vehicleId)) entries acc) i
     = (if i \<in> fst ` set entries then Some (f i) else map_of acc i)"
proof (induction entries arbitrary: acc)
  case Nil
  then show ?case by simp
next
  case (Cons e entries)
  obtain k ns where e: "e = (k, ns)" by (cases e)
  show ?case by (simp add: e Cons.IH update_conv')
qed

lemma map_of_computeTransitiveClosure:
  "map_of (m_transitiveClosure (computeTransitiveClosure g)) i
     = (if i \<in> fst ` set (m_adjacencyList g) then Some (bfsReachable (m_adjacencyList g) i) else None)"
  by (simp add: computeTransitiveClosure_def map_of_closure_fold)

lemma closure_build_enabled:
  assumes "m_computeTransitive g"
  shows "map_of (m_transitiveClosure (buildGraphFromSnapshots g snapshots antennaInfo)) i
     = (if i \<in> fst ` set (m_adjacencyList (buildGraphFromSnapshots g snapshots antennaInfo))
        then Some (bfsReachable (m_adjacencyList (buildGraphFromSnapshots g snapshots antennaInfo)) i)
        else None)"
proof (cases "snapshots = []")
  case True
  then show ?thesis by (simp add: buildGraphFromSnapshots_def)
next
  case False
  then show ?thesis
    using assms
    by (simp add: buildGraphFromSnapshots_def Let_def map_of_computeTransitiveClosure
        adjacency_computeTransitiveClosure)
qed

lemma adjEdges_as_neighbors:
  "adjEdges (m_adjacencyList g) = {(a, b). b \<in> set (getDirectNeighbors g a)}"
  using adjEdges_getDirectNeighbors by auto

subsection \<open>The position of a vehicle on its edge\<close>

lemma applyEdge_fields:
  "speed (applyEdge e v) = speed v" "currentHeading (applyEdge e v) = currentHeading v"
  "targetHeading (applyEdge e v) = targetHeading v" "positionOnEdge (applyEdge e v) = 0"
  by (simp_all add: applyEdge_def Let_def)

lemma reroute_fields:
  assumes "reroute graph (v, r) = (v1, r1)"
  shows "speed v1 = speed v" "currentHeading v1 = currentHeading v"
    "targetHeading v1 = targetHeading v" "positionOnEdge v1 = positionOnEdge v"
  using assms by (auto simp: reroute_def Let_def split: prod.splits if_splits)

lemma pickNextEdge_fields:
  assumes "pickNextEdge graph (v, r) = (v1, r1)"
  shows "speed v1 = speed v" and "currentHeading v1 = currentHeading v"
    and "targetHeading v1 = targetHeading v"
    and "positionOnEdge v1 = 0 \<or> positionOnEdge v1 = positionOnEdge v"
proof -
  obtain validEdges lessPreferredEdges backEdge hasBackEdge where c:
    "classifyEdges v (out_edges graph (currVertex v)) ([], [], nullEdge, False)
       = (validEdges, lessPreferredEdges, backEdge, hasBackEdge)"
    by (metis prod_cases4)
  have "speed v1 = speed v \<and> currentHeading v1 = currentHeading v \<and>
      targetHeading v1 = targetHeading v \<and>
      (positionOnEdge v1 = 0 \<or> positionOnEdge v1 = positionOnEdge v)"
    using assms reroute_fields [of graph v r v1 r1] unfolding pickNextEdge_def
    by (auto simp: c applyEdge_fields split: prod.splits if_splits)
  then show "speed v1 = speed v" and "currentHeading v1 = currentHeading v"
    and "targetHeading v1 = targetHeading v"
    and "positionOnEdge v1 = 0 \<or> positionOnEdge v1 = positionOnEdge v"
    by simp_all
qed

lemma DestReached_fields:
  "speed (DestReached v) = speed v" "currentHeading (DestReached v) = currentHeading v"
  "targetHeading (DestReached v) = targetHeading v"
  "positionOnEdge (DestReached v) = positionOnEdge v" "edgeLength (DestReached v) = 0"
  by (simp_all add: DestReached_def)

text \<open>
  The loop keeps the position non-negative, leaves speed and heading alone, and ends
  either on an edge with the position short of its length or with the edge length 0.
\<close>

lemma updateLoop_inv:
  "updateLoop fuel graph (v, r) = Some (v', r') \<Longrightarrow> 0 \<le> positionOnEdge v \<Longrightarrow>
   0 \<le> positionOnEdge v' \<and> (positionOnEdge v' < edgeLength v' \<or> edgeLength v' = 0) \<and>
   speed v' = speed v \<and> currentHeading v' = currentHeading v \<and>
   targetHeading v' = targetHeading v"
proof (induction fuel arbitrary: v r)
  case 0
  then show ?case by (auto split: if_splits)
next
  case (Suc n)
  show ?case
  proof (cases "positionOnEdge v \<ge> edgeLength v")
    case False
    then show ?thesis using Suc.prems by auto
  next
    case True
    let ?v1 = "v\<lparr>previousVertex := currVertex v, currVertex := nextVertex v\<rparr>"
    show ?thesis
    proof (cases "currVertex ?v1 = goal ?v1")
      case goal: True
      then have "(v', r') = (DestReached ?v1, r)"
        using Suc.prems(1) True by (simp add: Let_def)
      then show ?thesis using Suc.prems(2) by (simp add: DestReached_fields)
    next
      case nogoal: False
      obtain v2 r2 where p: "pickNextEdge graph (?v1, r) = (v2, r2)"
        by (cases "pickNextEdge graph (?v1, r)")
      let ?v3 = "v2\<lparr>positionOnEdge := positionOnEdge v - edgeLength v\<rparr>"
      have rec: "updateLoop n graph (?v3, r2) = Some (v', r')"
        using Suc.prems(1) True nogoal p by (simp add: Let_def)
      have "0 \<le> positionOnEdge ?v3" using True by simp
      from Suc.IH [OF rec this] pickNextEdge_fields(1-3) [OF p]
      show ?thesis by simp
    qed
  qed
qed

lemma beginMove_fields:
  assumes "beginMove graph (v, r) = (v1, r1)"
  shows "speed v1 = speed v" and "currentHeading v1 = currentHeading v"
    and "targetHeading v1 = targetHeading v"
    and "positionOnEdge v1 = 0 \<or> positionOnEdge v1 = positionOnEdge v"
  using assms pickNextEdge_fields [of graph v r v1 r1]
  by (auto simp: beginMove_def split: if_splits)

lemma updateHeading_fields:
  "speed (updateHeading dLat dLon v) = speed v"
  "positionOnEdge (updateHeading dLat dLon v) = positionOnEdge v"
  "edgeLength (updateHeading dLat dLon v) = edgeLength v"
  "currEdge (updateHeading dLat dLon v) = currEdge v"
  "currVertex (updateHeading dLat dLon v) = currVertex v"
  "nextVertex (updateHeading dLat dLon v) = nextVertex v"
  "previousVertex (updateHeading dLat dLon v) = previousVertex v"
  "start (updateHeading dLat dLon v) = start v"
  "goal (updateHeading dLat dLon v) = goal v"
  "recentVertices (updateHeading dLat dLon v) = recentVertices v"
  "stuckCounter (updateHeading dLat dLon v) = stuckCounter v"
  by (simp_all add: updateHeading_def Let_def)

lemma update_position:
  assumes "update fuel graph deltaTime (v, r) = Some (v', r')"
    and "0 \<le> deltaTime" and "0 \<le> speed v" and "0 \<le> positionOnEdge v"
  shows "0 \<le> positionOnEdge v' \<and> (positionOnEdge v' < edgeLength v' \<or> edgeLength v' = 0) \<and>
         speed v' = speed v"
proof (cases "currVertex v = goal v")
  case True
  then have "(v', r') = (DestReached v, r)" using assms(1) by (simp add: update_def)
  then show ?thesis using assms(4) by (simp add: DestReached_fields)
next
  case False
  obtain v1 r1 where b: "beginMove graph (v, r) = (v1, r1)"
    by (cases "beginMove graph (v, r)")
  obtain dLat dLon where m: "movement graph deltaTime v1 = (dLat, dLon)"
    by (cases "movement graph deltaTime v1")
  let ?v2 = "updateHeading dLat dLon (advance deltaTime v1)"
  have loop: "updateLoop fuel graph (?v2, r1) = Some (v', r')"
    using assms(1) False b m by (simp add: update_def)
  have s1: "speed v1 = speed v" and p1: "0 \<le> positionOnEdge v1"
    using beginMove_fields(1,4) [OF b] assms(4) by auto
  have "0 \<le> speed v1 * deltaTime" using s1 assms(2,3) by simp
  then have "0 \<le> positionOnEdge ?v2" using p1
    by (simp add: updateHeading_fields advance_def)
  from updateLoop_inv [OF loop this] s1
  show ?thesis by (simp add: updateHeading_fields advance_def)
qed

lemma updates_position:
  assumes "updates fuel graph deltas (v, r) = Some (v', r')"
    and "deltas \<noteq> []"
    and "\<forall>d \<in> set deltas. 0 \<le> d" and "0 \<le> speed v" and "0 \<le> positionOnEdge v"
  shows "0 \<le> positionOnEdge v' \<and> (positionOnEdge v' < edgeLength v' \<or> edgeLength v' = 0)"
  using assms
proof (induction deltas arbitrary: v r)
  case Nil
  then show ?case by simp
next
  case (Cons d deltas)
  obtain v1 r1 where u: "update fuel graph d (v, r) = Some (v1, r1)"
    using Cons.prems(1) by (auto split: option.splits)
  then have rest: "updates fuel graph deltas (v1, r1) = Some (v', r')"
    using Cons.prems(1) by simp
  have one: "0 \<le> positionOnEdge v1 \<and> (positionOnEdge v1 < edgeLength v1 \<or> edgeLength v1 = 0) \<and>
         speed v1 = speed v"
    using update_position [OF u] Cons.prems(3,4,5) by simp
  show ?case
  proof (cases "deltas = []")
    case True
    then show ?thesis using rest one by simp
  next
    case False
    show ?thesis
      using Cons.IH [OF rest False] Cons.prems(3,4) one by simp
  qed
qed

lemmas vehicle_run =
  update_def beginMove_def pickNextEdge_def twoVertexRoad_def freshVehicule_def out_edges_def
  isValidRoad_def nullEdge_def rand_def zeroRand_def applyEdge_def MAX_HISTORY_def
  movement_def getPosition_def advance_def updateHeading_fields DestReached_def

text \<open>
  C4, as the specification states it, fails when the goal is reached: the fresh example
  vehicle, one tick of 50 ms at 14 m/s on an edge of half a metre that ends at its goal,
  is left with \<open>positionOnEdge = 0.7\<close> and \<open>edgeLength = 0\<close>.
\<close>

theorem update_goal_reached_counterexample:
  "map_option (positionOnEdge \<circ> fst)
     (update 1 twoVertexRoad (1 / 20) (freshVehicule, zeroRand)) = Some (7 / 10) \<and>
   map_option (edgeLength \<circ> fst)
     (update 1 twoVertexRoad (1 / 20) (freshVehicule, zeroRand)) = Some 0 \<and>
   \<not> (7 / 10 :: real) \<le> 0"
  by (simp add: vehicle_run)

text \<open>
  C4, amended: for a vehicle with a non-negative speed and a non-negative position,
  after each call of a sequence of \<^verbatim>\<open>update\<close> calls with non-negative time steps
  (each of which returns), the position on the edge is non-negative, and it is less than
  the edge length unless the edge length is 0 (the vehicle is at a vertex: the goal was
  reached, which resets the edge length and leaves the position as it is).
\<close>

theorem updates_position_bounds:
  assumes "updates fuel graph deltas (v, r) = Some (v', r')"
    and "deltas \<noteq> []"
    and "\<forall>d \<in> set deltas. 0 \<le> d" and "0 \<le> speed v" and "0 \<le> positionOnEdge v"
  shows "0 \<le> positionOnEdge v' \<and> (positionOnEdge v' < edgeLength v' \<or> edgeLength v' = 0)"
  using assms by (rule updates_position)

theorem updates_position_bounds_witness:
  "\<exists>v' r'. updates 1 twoVertexRoad [1 / 100, 1 / 100] (freshVehicule, zeroRand) = Some (v', r') \<and>
      positionOnEdge v' = 7 / 25 \<and> edgeLength v' = 1 / 2 \<and>
      0 \<le> positionOnEdge v' \<and> positionOnEdge v' < edgeLength v'"
proof -
  have run: "map_option (\<lambda>s. (positionOnEdge (fst s), edgeLength (fst s)))
        (updates 1 twoVertexRoad [1 / 100, 1 / 100] (freshVehicule, zeroRand))
      = Some (7 / 25, 1 / 2)"
    by (simp add: vehicle_run)
  then obtain v' r' where s: "updates 1 twoVertexRoad [1 / 100, 1 / 100] (freshVehicule, zeroRand)
      = Some (v', r')"
    by (cases "updates 1 twoVertexRoad [1 / 100, 1 / 100] (freshVehicule, zeroRand)") auto
  have vals: "positionOnEdge v' = 7 / 25" "edgeLength v' = 1 / 2" using run unfolding s by simp_all
  have steps: "[1 / 100, 1 / 100 :: real] \<noteq> []" "\<forall>d \<in> set [1 / 100, 1 / 100 :: real]. 0 \<le> d"
    by simp_all
  have init: "0 \<le> speed freshVehicule" "0 \<le> positionOnEdge freshVehicule"
    by (simp_all add: freshVehicule_def)
  have "0 \<le> positionOnEdge v' \<and> (positionOnEdge v' < edgeLength v' \<or> edgeLength v' = 0)"
    using updates_position_bounds [OF s steps init] .
  then have "0 \<le> positionOnEdge v' \<and> positionOnEdge v' < edgeLength v'" using vals by simp
  then show ?thesis using s vals by blast
qed

subsection \<open>The heading of a vehicle\<close>

text \<open>
  Rounding, evaluated: a number \<open>x\<close> of the binade of \<open>2 powi e\<close> that is less than half a
  unit of the last place away from the \<open>n\<close>-th multiple of that unit is rounded to it.
\<close>

lemma roundHalfEven_near:
  assumes "\<bar>q - of_int n\<bar> < 1 / 2"
  shows "roundHalfEven q = n"
proof -
  have "\<lfloor>q\<rfloor> = n \<or> \<lfloor>q\<rfloor> = n - 1" using assms by linarith
  then show ?thesis
  proof
    assume f: "\<lfloor>q\<rfloor> = n"
    then have "q - of_int n < 1 / 2" using assms by linarith
    then show ?thesis unfolding roundHalfEven_def Let_def f by simp
  next
    assume f: "\<lfloor>q\<rfloor> = n - 1"
    have "of_int n - 1 / 2 < q" using assms by linarith
    then have "q - of_int (n - 1) > 1 / 2" by simp
    then show ?thesis unfolding roundHalfEven_def Let_def f by simp
  qed
qed

lemma round64_normal:
  assumes lo: "2 powi e \<le> \<bar>x\<bar>" and hi: "\<bar>x\<bar> < 2 powi (e + 1)" and e: "- 1022 \<le> e"
    and n: "\<bar>x / 2 powi (e - 52) - of_int n\<bar> < 1 / 2"
  shows "round64 x = of_int n * 2 powi (e - 52)"
proof -
  have "0 < (2::real) powi e" by simp
  then have pos: "0 < \<bar>x\<bar>" using lo by linarith
  have p: "(2::real) powr real_of_int k = 2 powi k" for k :: int
    by (simp add: powr_real_of_int')
  have "(2::real) powr real_of_int e \<le> \<bar>x\<bar>" unfolding p by (rule lo)
  moreover have "\<bar>x\<bar> < 2 powr real_of_int (e + 1)" unfolding p by (rule hi)
  ultimately have fl: "\<lfloor>log 2 \<bar>x\<bar>\<rfloor> = e"
    using floor_log_eq_powr_iff [of "\<bar>x\<bar>" 2 e] pos by simp
  have x0: "x \<noteq> 0" using pos by simp
  show ?thesis
    unfolding round64_def Let_def fl using x0 e roundHalfEven_near [OF n]
    by (simp add: max_def)
qed

text \<open>The angle of a small slope is the slope, up to its cube.\<close>

lemma arctan_small:
  assumes "0 < x"
  shows "x * (1 - x\<^sup>2) < arctan x" and "arctan x < x"
proof -
  have "\<exists>z. 0 < z \<and> z < x \<and> arctan x - arctan 0 = (x - 0) * inverse (1 + z\<^sup>2)"
    using assms by (intro MVT2) (auto intro: DERIV_arctan)
  then obtain z where z: "0 < z" "z < x" "arctan x = x * inverse (1 + z\<^sup>2)" by auto
  have z2: "0 < z\<^sup>2" "z\<^sup>2 < x\<^sup>2" using z(1,2) by (simp_all add: power_strict_mono)
  have "inverse (1 + z\<^sup>2) < 1" using z2(1) by (simp add: inverse_less_1_iff)
  then show "arctan x < x" unfolding z(3) using assms by simp
  have "(1 - x\<^sup>2) * (1 + z\<^sup>2) < 1"
  proof -
    have "(1 - x\<^sup>2) * (1 + z\<^sup>2) = 1 - (x\<^sup>2 - z\<^sup>2) - x\<^sup>2 * z\<^sup>2" by (simp add: algebra_simps)
    moreover have "0 < x\<^sup>2 * z\<^sup>2" using z2 assms by simp
    ultimately show ?thesis using z2(2) by linarith
  qed
  moreover have p: "0 < 1 + z\<^sup>2" by (simp add: add_pos_nonneg)
  ultimately have "1 - x\<^sup>2 < 1 / (1 + z\<^sup>2)"
    by (simp only: pos_less_divide_eq [OF p])
  then have "1 - x\<^sup>2 < inverse (1 + z\<^sup>2)" by (simp only: inverse_eq_divide)
  then show "x * (1 - x\<^sup>2) < arctan x" unfolding z(3) using assms by simp
qed

text \<open>The constants of the heading arithmetic.\<close>

lemma threshold_value: "round64 (1 / 10 ^ 10) = 7737125245533627 / 2 ^ 86"
  by (rule round64_normal [of "- 34" _ 7737125245533627, THEN trans]) simp_all

lemma M_PI_value: "M_PI = 884279719003555 / 2 ^ 48"
  unfolding M_PI_def
  by (rule round64_normal [of 1 _ 7074237752028440, THEN trans]) simp_all

lemma headingSmoothingFactor_value: "headingSmoothingFactor = 5404319552844595 / 2 ^ 55"
  unfolding headingSmoothingFactor_def
  by (rule round64_normal [of "- 3" _ 5404319552844595, THEN trans]) simp_all

text \<open>
  The heading arithmetic for a movement to the north with a drift to the west of one
  part in \<open>2 ^ 50\<close>, step by step.
\<close>

lemma slanted_angle:
  assumes "0 < t"
  shows "atan2_64 (- (t / 2 ^ 60)) (t / 2 ^ 10) = - (1 / 2 ^ 50)"
proof -
  define a where "a = arctan (1 / 2 ^ 50)"
  have "- (t / 2 ^ 60) / (t / 2 ^ 10) = - (1 / 2 ^ 50)" using assms by simp
  then have at: "atan2 (- (t / 2 ^ 60)) (t / 2 ^ 10) = - a"
    unfolding a_def atan2_def using assms by (simp add: arctan_minus)
  have "1 / 2 ^ 50 * (1 - (1 / 2 ^ 50)\<^sup>2) < a" and hi: "a < 1 / 2 ^ 50"
    unfolding a_def by (rule arctan_small, simp)+
  moreover have "(1 / 2 ^ 50 :: real) * (1 - (1 / 2 ^ 50)\<^sup>2) = 1 / 2 ^ 50 - 1 / 2 ^ 150"
    by (simp add: power2_eq_square)
  ultimately have lo: "1 / 2 ^ 50 - 1 / 2 ^ 150 < a" by simp
  have "round64 (- a) = of_int (- (2 ^ 53)) * 2 powi (- 51 - 52)"
  proof (rule round64_normal)
    show "2 powi (- 51) \<le> \<bar>- a\<bar>" using lo by simp
    show "\<bar>- a\<bar> < 2 powi (- 51 + 1)" using lo hi by simp
    show "- 1022 \<le> (- 51 :: int)" by simp
    show "\<bar>- a / 2 powi (- 51 - 52) - of_int (- (2 ^ 53))\<bar> < 1 / 2" using lo hi by simp
  qed
  then show ?thesis unfolding atan2_64_def at by simp
qed

lemma slanted_degrees:
  "div64 (mul64 (- (1 / 2 ^ 50)) 180) M_PI = - (8063664102031864 / 2 ^ 97)"
proof -
  have m: "mul64 (- (1 / 2 ^ 50)) 180 = - (45 / 2 ^ 48)"
    unfolding mul64_def
    by (rule round64_normal [of "- 43" _ "- 6333186975989760", THEN trans]) simp_all
  show ?thesis
    unfolding m M_PI_value div64_def
    by (rule round64_normal [of "- 45" _ "- 8063664102031864", THEN trans]) simp_all
qed

lemma slanted_target: "add64 (- (8063664102031864 / 2 ^ 97)) 360 = 360 - 1 / 2 ^ 44"
  unfolding add64_def
  by (rule round64_normal [of 8 _ "360 * 2 ^ 44 - 1", THEN trans]) simp_all

lemma slanted_difference: "sub64 (360 - 1 / 2 ^ 44) 0 = 360 - 1 / 2 ^ 44"
  unfolding sub64_def
  by (rule round64_normal [of 8 _ "360 * 2 ^ 44 - 1", THEN trans]) simp_all

lemma slanted_difference_normalised: "sub64 (360 - 1 / 2 ^ 44) 360 = - (1 / 2 ^ 44)"
  unfolding sub64_def
  by (rule round64_normal [of "- 44" _ "- (2 ^ 52)", THEN trans]) simp_all

lemma slanted_sum:
  "add64 0 (mul64 (- (1 / 2 ^ 44)) headingSmoothingFactor) = - (5404319552844595 / 2 ^ 99)"
proof -
  have m: "mul64 (- (1 / 2 ^ 44)) headingSmoothingFactor = - (5404319552844595 / 2 ^ 99)"
    unfolding mul64_def headingSmoothingFactor_value
    by (rule round64_normal [of "- 47" _ "- 5404319552844595", THEN trans]) simp_all
  show ?thesis
    unfolding m add64_def
    by (rule round64_normal [of "- 47" _ "- 5404319552844595", THEN trans]) simp_all
qed

text \<open>
  The sum is negative and less than half a unit of the last place below 360 in size:
  adding 360 gives 360.
\<close>

lemma slanted_heading: "add64 (- (5404319552844595 / 2 ^ 99)) 360 = 360"
  unfolding add64_def
  by (rule round64_normal [of 8 _ "360 * 2 ^ 44", THEN trans]) simp_all

lemma updateHeading_steps:
  assumes "\<bar>dLat\<bar> > round64 (1 / 10 ^ 10) \<or> \<bar>dLon\<bar> > round64 (1 / 10 ^ 10)"
    and "div64 (mul64 (atan2_64 dLon dLat) 180) M_PI = t0" and "t0 < 0"
    and "add64 t0 360 = t"
    and "sub64 t (currentHeading v) = d0" and "d0 > 180"
    and "sub64 d0 360 = d"
    and "add64 (currentHeading v) (mul64 d headingSmoothingFactor) = h0" and "h0 < 0"
    and "add64 h0 360 = h"
  shows "updateHeading dLat dLon v = v\<lparr>targetHeading := t, currentHeading := h\<rparr>"
  using assms unfolding updateHeading_def by (simp add: Let_def)

lemma slanted_updateHeading:
  assumes "currentHeading v = 0" and "1 / 10 ^ 6 < t"
  shows "updateHeading (t / 2 ^ 10) (- (t / 2 ^ 60)) v
           = v\<lparr>targetHeading := 360 - 1 / 2 ^ 44, currentHeading := 360\<rparr>"
proof (rule updateHeading_steps)
  have t: "0 < t" using assms(2) by simp
  have "7737125245533627 / 2 ^ 86 < 1 / 10 ^ 6 / (2 ^ 10 :: real)" by simp
  also have "\<dots> < t / 2 ^ 10" using assms(2) by (simp add: divide_strict_right_mono)
  finally have "round64 (1 / 10 ^ 10) < \<bar>t / 2 ^ 10\<bar>" unfolding threshold_value using t by simp
  then show "\<bar>t / 2 ^ 10\<bar> > round64 (1 / 10 ^ 10) \<or> \<bar>- (t / 2 ^ 60)\<bar> > round64 (1 / 10 ^ 10)"
    by simp
  show "div64 (mul64 (atan2_64 (- (t / 2 ^ 60)) (t / 2 ^ 10)) 180) M_PI
          = - (8063664102031864 / 2 ^ 97)"
    unfolding slanted_angle [OF t] by (rule slanted_degrees)
  show "- (8063664102031864 / 2 ^ 97) < (0::real)" by simp
  show "add64 (- (8063664102031864 / 2 ^ 97)) 360 = 360 - 1 / 2 ^ 44" by (rule slanted_target)
  show "sub64 (360 - 1 / 2 ^ 44) (currentHeading v) = 360 - 1 / 2 ^ 44"
    unfolding assms(1) by (rule slanted_difference)
  show "360 - 1 / 2 ^ 44 > (180::real)" by simp
  show "sub64 (360 - 1 / 2 ^ 44) 360 = - (1 / 2 ^ 44)" by (rule slanted_difference_normalised)
  show "add64 (currentHeading v) (mul64 (- (1 / 2 ^ 44)) headingSmoothingFactor)
          = - (5404319552844595 / 2 ^ 99)"
    unfolding assms(1) by (rule slanted_sum)
  show "- (5404319552844595 / 2 ^ 99) < (0::real)" by simp
  show "add64 (- (5404319552844595 / 2 ^ 99)) 360 = 360" by (rule slanted_heading)
qed

text \<open>
  On the 8 metre edge with a tick of 125 ms, the position arithmetic involves numbers of
  binary64 only: none of its operations rounds, so that the movement computed on the
  reals is the one computed on \<^verbatim>\<open>double\<close>.
\<close>

lemma slanted_movement_exact:
  "mul64 14 (1 / 8) = 14 * (1 / 8)"
  "add64 0 (7 / 4) = 0 + 7 / 4"
  "div64 (7 / 4) 8 = 7 / 4 / 8"
  "sub64 (1 / 2 ^ 10) 0 = 1 / 2 ^ 10 - 0"
  "mul64 (7 / 32) (1 / 2 ^ 10) = 7 / 32 * (1 / 2 ^ 10)"
  "add64 0 (7 / 2 ^ 15) = 0 + 7 / 2 ^ 15"
  "sub64 (7 / 2 ^ 15) 0 = 7 / 2 ^ 15 - 0"
  "sub64 (- (1 / 2 ^ 60)) 0 = - (1 / 2 ^ 60) - 0"
  "mul64 (7 / 32) (- (1 / 2 ^ 60)) = 7 / 32 * (- (1 / 2 ^ 60))"
  "add64 0 (- (7 / 2 ^ 65)) = 0 + - (7 / 2 ^ 65)"
  "sub64 (- (7 / 2 ^ 65)) 0 = - (7 / 2 ^ 65) - 0"
proof -
  show "mul64 14 (1 / 8) = 14 * (1 / 8)"
    unfolding mul64_def by (rule round64_normal [of 0 _ "7 * 2 ^ 50", THEN trans]) simp_all
  show "add64 0 (7 / 4) = 0 + 7 / 4"
    unfolding add64_def by (rule round64_normal [of 0 _ "7 * 2 ^ 50", THEN trans]) simp_all
  show "div64 (7 / 4) 8 = 7 / 4 / 8"
    unfolding div64_def by (rule round64_normal [of "- 3" _ "7 * 2 ^ 50", THEN trans]) simp_all
  show "sub64 (1 / 2 ^ 10) 0 = 1 / 2 ^ 10 - 0"
    unfolding sub64_def by (rule round64_normal [of "- 10" _ "2 ^ 52", THEN trans]) simp_all
  show "mul64 (7 / 32) (1 / 2 ^ 10) = 7 / 32 * (1 / 2 ^ 10)"
    unfolding mul64_def by (rule round64_normal [of "- 13" _ "7 * 2 ^ 50", THEN trans]) simp_all
  show "add64 0 (7 / 2 ^ 15) = 0 + 7 / 2 ^ 15"
    unfolding add64_def by (rule round64_normal [of "- 13" _ "7 * 2 ^ 50", THEN trans]) simp_all
  show "sub64 (7 / 2 ^ 15) 0 = 7 / 2 ^ 15 - 0"
    unfolding sub64_def by (rule round64_normal [of "- 13" _ "7 * 2 ^ 50", THEN trans]) simp_all
  show "sub64 (- (1 / 2 ^ 60)) 0 = - (1 / 2 ^ 60) - 0"
    unfolding sub64_def by (rule round64_normal [of "- 60" _ "- (2 ^ 52)", THEN trans]) simp_all
  show "mul64 (7 / 32) (- (1 / 2 ^ 60)) = 7 / 32 * (- (1 / 2 ^ 60))"
    unfolding mul64_def by (rule round64_normal [of "- 63" _ "- (7 * 2 ^ 50)", THEN trans]) simp_all
  show "add64 0 (- (7 / 2 ^ 65)) = 0 + - (7 / 2 ^ 65)"
    unfolding add64_def by (rule round64_normal [of "- 63" _ "- (7 * 2 ^ 50)", THEN trans]) simp_all
  show "sub64 (- (7 / 2 ^ 65)) 0 = - (7 / 2 ^ 65) - 0"
    unfolding sub64_def by (rule round64_normal [of "- 63" _ "- (7 * 2 ^ 50)", THEN trans]) simp_all
qed

lemma slanted_getPosition:
  assumes "edgeLength v = len" and "0 < len" and "positionOnEdge v = p"
    and "0 \<le> p" and "p \<le> len"
    and "currEdge v = \<lparr>source = 0, target = 1, distance = len, type_e = ''primary''\<rparr>"
  shows "getPosition (slantedRoad len) v = (p / len / 2 ^ 10, - (p / len / 2 ^ 60))"
proof -
  have "\<not> p / len < 0" and "\<not> p / len > 1"
    using assms(2,4,5) by (simp_all add: divide_less_0_iff not_less)
  then show ?thesis
    using assms(1,2,3,6) by (simp add: getPosition_def slantedRoad_def Let_def)
qed

lemmas slanted_run =
  beginMove_def pickNextEdge_def slantedRoad_def freshVehicule_def out_edges_def
  isValidRoad_def nullEdge_def rand_def zeroRand_def applyEdge_def MAX_HISTORY_def
  movement_def getPosition_def advance_def

text \<open>
  C8 fails on the code: the heading of a vehicle can leave \<open>[0, 360)\<close>. The fresh example
  vehicle, with the heading 0, drives its first tick on the road due north with the
  slight drift to the west, whatever the length of the edge, staying on it and covering
  more than a millionth of it. The target heading is the largest \<^verbatim>\<open>double\<close> below 360,
  the smoothed heading is negative and tiny, and \<^verbatim>\<open>currentHeading += 360.0\<close> rounds it
  to 360, which the \<^verbatim>\<open>else if (currentHeading >= 360.0)\<close> of the same statement is there
  to exclude. The call returns.
\<close>

theorem update_heading_reaches_360:
  assumes "0 < deltaTime" and "14 * deltaTime < len" and "len < 10 ^ 6 * (14 * deltaTime)"
  shows "map_option (\<lambda>s. (targetHeading (fst s), currentHeading (fst s)))
           (update fuel (slantedRoad len) deltaTime (freshVehicule, zeroRand))
         = Some (360 - 1 / 2 ^ 44, 360)"
proof -
  let ?v1 = "fst (beginMove (slantedRoad len) (freshVehicule, zeroRand))"
  let ?r1 = "snd (beginMove (slantedRoad len) (freshVehicule, zeroRand))"
  define t where "t = 14 * deltaTime / len"
  have len: "0 < len" using assms(1,2) by simp
  have t: "0 < t" "t < 1" "1 / 10 ^ 6 < t"
    using assms len unfolding t_def by (simp_all add: pos_less_divide_eq pos_divide_less_eq)
  have v1: "edgeLength ?v1 = len" "positionOnEdge ?v1 = 0" "speed ?v1 = 14"
    "currentHeading ?v1 = 0" "currEdge ?v1 = \<lparr>source = 0, target = 1, distance = len, type_e = ''primary''\<rparr>"
    by (simp_all add: slanted_run)
  have before: "getPosition (slantedRoad len) ?v1 = (0 / len / 2 ^ 10, - (0 / len / 2 ^ 60))"
    using len by (intro slanted_getPosition) (simp_all add: v1)
  have after: "getPosition (slantedRoad len) (advance deltaTime ?v1)
        = (14 * deltaTime / len / 2 ^ 10, - (14 * deltaTime / len / 2 ^ 60))"
    using len assms(1,2) by (intro slanted_getPosition) (simp_all add: v1 advance_def)
  have m: "movement (slantedRoad len) deltaTime ?v1 = (t / 2 ^ 10, - (t / 2 ^ 60))"
    unfolding movement_def before after t_def by simp
  have h0: "currentHeading (advance deltaTime ?v1) = 0"
    by (simp add: advance_def v1)
  have ne: "currVertex freshVehicule \<noteq> goal freshVehicule" by (simp add: freshVehicule_def)
  have u: "update fuel (slantedRoad len) deltaTime (freshVehicule, zeroRand)
        = updateLoop fuel (slantedRoad len)
            (updateHeading (t / 2 ^ 10) (- (t / 2 ^ 60)) (advance deltaTime ?v1), ?r1)"
    by (simp add: update_def ne case_prod_beta m)
  have stay: "\<not> positionOnEdge (advance deltaTime ?v1) \<ge> edgeLength (advance deltaTime ?v1)"
    using assms(2) by (simp add: advance_def v1)
  show ?thesis
    unfolding u slanted_updateHeading [OF h0 t(3)] using stay by (cases fuel) simp_all
qed

theorem update_heading_reaches_360_witness:
  "0 \<le> currentHeading freshVehicule \<and> currentHeading freshVehicule < 360 \<and>
   movement (slantedRoad 8) (1 / 8) (fst (beginMove (slantedRoad 8) (freshVehicule, zeroRand)))
     = (7 / 2 ^ 15, - (7 / 2 ^ 65)) \<and>
   map_option (\<lambda>s. (targetHeading (fst s), currentHeading (fst s)))
     (update 1 (slantedRoad 8) (1 / 8) (freshVehicule, zeroRand)) = Some (360 - 1 / 2 ^ 44, 360) \<and>
   \<not> (360 :: real) < 360"
proof -
  have "map_option (\<lambda>s. (targetHeading (fst s), currentHeading (fst s)))
     (update 1 (slantedRoad 8) (1 / 8) (freshVehicule, zeroRand)) = Some (360 - 1 / 2 ^ 44, 360)"
    using update_heading_reaches_360 [of "1 / 8" 8 1] by simp
  moreover have "movement (slantedRoad 8) (1 / 8)
      (fst (beginMove (slantedRoad 8) (freshVehicule, zeroRand))) = (7 / 2 ^ 15, - (7 / 2 ^ 65))"
    by (simp add: slanted_run)
  moreover have "0 \<le> currentHeading freshVehicule \<and> currentHeading freshVehicule < 360"
    by (simp add: freshVehicule_def)
  ultimately show ?thesis by simp
qed

subsection \<open>The build from the vehicles\<close>

lemma sym_connectIfInRange:
  "sym (adjEdges adj) \<Longrightarrow> sym (adjEdges (connectIfInRange d r1 r2 a b adj))"
  using extends_connect [of adj d r1 r2 a b]
  by (auto simp: extends_def sym_def split: if_splits)

lemma sym_connectVehicles: "sym (adjEdges adj) \<Longrightarrow> sym (adjEdges (connectVehicles graph v1 v2 adj))"
  unfolding connectVehicles_def by (rule sym_connectIfInRange)

lemma sym_classicInner:
  "sym (adjEdges (fst st)) \<Longrightarrow> sym (adjEdges (fst (classicInner graph v1 vs st)))"
  by (induction graph v1 vs st rule: classicInner.induct) (simp_all add: sym_connectVehicles)

lemma sym_buildGraphClassic:
  "sym (adjEdges (fst st)) \<Longrightarrow> sym (adjEdges (fst (buildGraphClassic graph vs st)))"
  by (induction graph vs st rule: buildGraphClassic.induct) (simp_all add: sym_classicInner)

lemma sym_gridInner:
  "sym (adjEdges (fst st)) \<Longrightarrow> sym (adjEdges (fst (gridInner graph vehicleMap v1 ids st)))"
  by (induction graph vehicleMap v1 ids st rule: gridInner.induct)
    (simp_all add: sym_connectVehicles split: option.splits)

lemma sym_buildGraphWithSpatialGrid:
  "sym (adjEdges (fst st)) \<Longrightarrow>
   sym (adjEdges (fst (buildGraphWithSpatialGrid graph getNearbyVehicles vehicleMap vs st)))"
  by (induction graph getNearbyVehicles vehicleMap vs st rule: buildGraphWithSpatialGrid.induct)
    (simp_all add: sym_gridInner)

lemma adjEdges_registerVehicles:
  "adjEdges (snd st) = {} \<Longrightarrow> adjEdges (snd (registerVehicles vs st)) = {}"
  by (induction vs st rule: registerVehicles.induct) (simp_all add: adjEdges_update_empty)

lemma sym_buildGraph:
  "sym (adjEdges (m_adjacencyList (buildGraph graph getNearbyVehicles g vehicles)))"
proof (cases "vehicles = []")
  case True
  then show ?thesis by (simp add: buildGraph_def adjEdges_Nil sym_def)
next
  case False
  obtain vehicleMap adj where reg: "registerVehicles vehicles ([], []) = (vehicleMap, adj)"
    by (cases "registerVehicles vehicles ([], [])")
  have "adjEdges adj = {}"
    using adjEdges_registerVehicles [of "([], [])" vehicles] reg by (simp add: adjEdges_Nil)
  then have s0: "sym (adjEdges (fst (adj, 0 :: 32 word)))" by (simp add: sym_def)
  show ?thesis
    using False reg sym_buildGraphClassic [OF s0, of graph vehicles]
      sym_buildGraphWithSpatialGrid [OF s0, of graph getNearbyVehicles vehicleMap vehicles]
    by (simp add: buildGraph_def Let_def adjacency_computeTransitiveClosure)
qed

lemma closure_buildGraph_disabled:
  "\<not> m_computeTransitive g \<Longrightarrow>
   m_transitiveClosure (buildGraph graph getNearbyVehicles g vehicles) = []"
  by (simp add: buildGraph_def Let_def split: prod.splits)

lemma closure_buildGraph_enabled:
  assumes "m_computeTransitive g"
  shows "map_of (m_transitiveClosure (buildGraph graph getNearbyVehicles g vehicles)) i
     = (if i \<in> fst ` set (m_adjacencyList (buildGraph graph getNearbyVehicles g vehicles))
        then Some (bfsReachable (m_adjacencyList (buildGraph graph getNearbyVehicles g vehicles)) i)
        else None)"
proof (cases "vehicles = []")
  case True
  then show ?thesis by (simp add: buildGraph_def)
next
  case False
  then show ?thesis
    using assms
    by (simp add: buildGraph_def Let_def map_of_computeTransitiveClosure
        adjacency_computeTransitiveClosure split: prod.splits)
qed

text \<open>
  C3: in the adjacency map that a build leaves, from snapshots (with or without antenna
  information) or from the vehicles (classic or spatial-grid loops), \<open>j\<close> is a neighbour
  of \<open>i\<close> exactly when \<open>i\<close> is a neighbour of \<open>j\<close>.
\<close>

theorem adjacency_symmetric:
  assumes "g' = buildGraphFromSnapshots g snapshots antennaInfo \<or>
           g' = buildGraph graph getNearbyVehicles g vehicles"
  shows "j \<in> set (getDirectNeighbors g' i) \<longleftrightarrow> i \<in> set (getDirectNeighbors g' j)"
proof -
  have s: "sym (adjEdges (m_adjacencyList g'))"
    using assms
  proof
    assume "g' = buildGraphFromSnapshots g snapshots antennaInfo"
    then show ?thesis using build_snapshots_sym by (auto simp: sym_def)
  next
    assume "g' = buildGraph graph getNearbyVehicles g vehicles"
    then show ?thesis using sym_buildGraph by simp
  qed
  have "(i, j) \<in> adjEdges (m_adjacencyList g') \<longleftrightarrow> (j, i) \<in> adjEdges (m_adjacencyList g')"
    using s by (auto simp: sym_def)
  then show ?thesis unfolding adjEdges_getDirectNeighbors .
qed

theorem adjacency_symmetric_witness:
  "2 \<in> set (getDirectNeighbors
     (buildGraph twoVertexRoad (\<lambda>vehicleId. []) InterferenceGraph_new
        [Some freshVehicule, None, Some (freshVehicule\<lparr>id_v := 2\<rparr>)]) 1) \<and>
   1 \<in> set (getDirectNeighbors
     (buildGraph twoVertexRoad (\<lambda>vehicleId. []) InterferenceGraph_new
        [Some freshVehicule, None, Some (freshVehicule\<lparr>id_v := 2\<rparr>)]) 2)"
proof -
  let ?g = "buildGraph twoVertexRoad (\<lambda>vehicleId. []) InterferenceGraph_new
        [Some freshVehicule, None, Some (freshVehicule\<lparr>id_v := 2\<rparr>)]"
  have one: "2 \<in> set (getDirectNeighbors ?g 1)"
    by (simp add: buildGraph_def InterferenceGraph_new_def freshVehicule_def twoVertexRoad_def
        connectVehicles_def calculateDist_def getPosition_def GraphBuilder_distance_def
        connectIfInRange_def adjInsert_def getDirectNeighbors_def)
  have "?g = buildGraphFromSnapshots InterferenceGraph_new [] None \<or>
        ?g = buildGraph twoVertexRoad (\<lambda>vehicleId. []) InterferenceGraph_new
          [Some freshVehicule, None, Some (freshVehicule\<lparr>id_v := 2\<rparr>)]"
    by (rule disjI2) (rule refl)
  from adjacency_symmetric [OF this, of 2 1] one
  show ?thesis by simp
qed

text \<open>
  C10: \<^verbatim>\<open>canCommunicate\<close> looks at the closure map only. After a build with the
  closure switched off the closure map is empty and the answer is no for every pair,
  direct neighbours included; and the answer is no whenever the first id has no entry in
  the closure map.
\<close>

theorem canCommunicate_closure_only:
  "((g' = buildGraphFromSnapshots g snapshots antennaInfo \<or>
     g' = buildGraph graph getNearbyVehicles g vehicles) \<and> \<not> m_computeTransitive g
      \<longrightarrow> \<not> canCommunicate g' id1 id2) \<and>
   (map_of (m_transitiveClosure g2) ida = None \<longrightarrow> \<not> canCommunicate g2 ida idb)"
  by (auto simp: closure_build_disabled closure_buildGraph_disabled canCommunicate_def)

theorem canCommunicate_closure_only_witness:
  "\<not> m_computeTransitive InterferenceGraph_new \<and>
   2 \<in> set (getDirectNeighbors
     (buildGraphFromSnapshots InterferenceGraph_new
        [\<lparr>id_s = 1, lon = 0, lat = 0, transmissionRange = 500, microAntennaId = 0\<rparr>,
         \<lparr>id_s = 2, lon = 0, lat = 0, transmissionRange = 500, microAntennaId = 0\<rparr>] None) 1) \<and>
   \<not> canCommunicate
     (buildGraphFromSnapshots InterferenceGraph_new
        [\<lparr>id_s = 1, lon = 0, lat = 0, transmissionRange = 500, microAntennaId = 0\<rparr>,
         \<lparr>id_s = 2, lon = 0, lat = 0, transmissionRange = 500, microAntennaId = 0\<rparr>] None) 1 2 \<and>
   map_of (m_transitiveClosure InterferenceGraph_new) 7 = None \<and>
   \<not> canCommunicate InterferenceGraph_new 7 8"
proof -
  let ?g = "buildGraphFromSnapshots InterferenceGraph_new
        [\<lparr>id_s = 1, lon = 0, lat = 0, transmissionRange = 500, microAntennaId = 0\<rparr>,
         \<lparr>id_s = 2, lon = 0, lat = 0, transmissionRange = 500, microAntennaId = 0\<rparr>] None"
  have off: "\<not> m_computeTransitive InterferenceGraph_new"
    and none: "map_of (m_transitiveClosure InterferenceGraph_new) 7 = None"
    by (simp_all add: InterferenceGraph_new_def)
  have nb: "2 \<in> set (getDirectNeighbors ?g 1)"
    by (simp add: InterferenceGraph_new_def buildGraphFromSnapshots_def initAdjacency_def
      compareSnapshots_def connectIfInRange_def snapshotDistance_same_lon adjInsert_def
      getDirectNeighbors_def)
  note t = canCommunicate_closure_only [where g' = ?g and g = InterferenceGraph_new
      and snapshots = "[\<lparr>id_s = 1, lon = 0, lat = 0, transmissionRange = 500, microAntennaId = 0\<rparr>,
         \<lparr>id_s = 2, lon = 0, lat = 0, transmissionRange = 500, microAntennaId = 0\<rparr>]"
      and antennaInfo = None and ?id1.0 = 1 and ?id2.0 = 2 and ?g2.0 = InterferenceGraph_new
      and ida = 7 and idb = 8]
  have "\<not> canCommunicate ?g 1 2" using t off by blast
  moreover have "\<not> canCommunicate InterferenceGraph_new 7 8" using t none by blast
  ultimately show ?thesis using off none nb by (intro conjI)
qed

text \<open>
  C2: after a build with the closure switched on, every id \<open>i\<close> of the adjacency map
  has a closure entry, and that entry holds exactly the ids \<open>j \<noteq> i\<close> reachable from \<open>i\<close>
  by a path of at least one adjacency edge; \<open>i\<close> itself is not in it.
\<close>

theorem closure_is_reachability:
  assumes "g' = buildGraphFromSnapshots g snapshots antennaInfo \<or>
           g' = buildGraph graph getNearbyVehicles g vehicles"
    and "m_computeTransitive g"
    and "map_of (m_adjacencyList g') i = Some ns"
  shows "\<exists>c. map_of (m_transitiveClosure g') i = Some c \<and>
             set c = {j. j \<noteq> i \<and> (i, j) \<in> {(a, b). b \<in> set (getDirectNeighbors g' a)}\<^sup>+} \<and>
             i \<notin> set c"
proof -
  have "(i, ns) \<in> set (m_adjacencyList g')" using assms(3) by (rule map_of_SomeD)
  then have "fst (i, ns) \<in> fst ` set (m_adjacencyList g')" by (rule imageI)
  then have key: "i \<in> fst ` set (m_adjacencyList g')" by simp
  have "map_of (m_transitiveClosure g') i
     = (if i \<in> fst ` set (m_adjacencyList g') then Some (bfsReachable (m_adjacencyList g') i)
        else None)"
    using assms(1)
  proof
    assume "g' = buildGraphFromSnapshots g snapshots antennaInfo"
    then show ?thesis using closure_build_enabled [OF assms(2)] by simp
  next
    assume "g' = buildGraph graph getNearbyVehicles g vehicles"
    then show ?thesis using closure_buildGraph_enabled [OF assms(2)] by simp
  qed
  then have c: "map_of (m_transitiveClosure g') i = Some (bfsReachable (m_adjacencyList g') i)"
    using key by simp
  have s: "set (bfsReachable (m_adjacencyList g') i)
        = {j. j \<noteq> i \<and> (i, j) \<in> {(a, b). b \<in> set (getDirectNeighbors g' a)}\<^sup>+}"
    unfolding set_bfsReachable adjEdges_as_neighbors ..
  have "i \<notin> set (bfsReachable (m_adjacencyList g') i)" unfolding s by simp
  then show ?thesis using c s by simp
qed

theorem closure_is_reachability_witness:
  "map_of (m_transitiveClosure
     (buildGraphFromSnapshots (enableTransitiveClosure True InterferenceGraph_new)
        [\<lparr>id_s = 1, lon = 0, lat = 0, transmissionRange = 100, microAntennaId = -1\<rparr>,
         \<lparr>id_s = 2, lon = 0, lat = 90 / 111000, transmissionRange = 100, microAntennaId = -1\<rparr>,
         \<lparr>id_s = 3, lon = 0, lat = 180 / 111000, transmissionRange = 100, microAntennaId = -1\<rparr>]
        None)) 1 = Some [3, 2] \<and>
   getDirectNeighbors
     (buildGraphFromSnapshots (enableTransitiveClosure True InterferenceGraph_new)
        [\<lparr>id_s = 1, lon = 0, lat = 0, transmissionRange = 100, microAntennaId = -1\<rparr>,
         \<lparr>id_s = 2, lon = 0, lat = 90 / 111000, transmissionRange = 100, microAntennaId = -1\<rparr>,
         \<lparr>id_s = 3, lon = 0, lat = 180 / 111000, transmissionRange = 100, microAntennaId = -1\<rparr>]
        None) 1 = [2] \<and>
   (1, 3) \<in> {(a, b). b \<in> set (getDirectNeighbors
     (buildGraphFromSnapshots (enableTransitiveClosure True InterferenceGraph_new)
        [\<lparr>id_s = 1, lon = 0, lat = 0, transmissionRange = 100, microAntennaId = -1\<rparr>,
         \<lparr>id_s = 2, lon = 0, lat = 90 / 111000, transmissionRange = 100, microAntennaId = -1\<rparr>,
         \<lparr>id_s = 3, lon = 0, lat = 180 / 111000, transmissionRange = 100, microAntennaId = -1\<rparr>]
        None) a)}\<^sup>+"
proof -
  let ?g = "buildGraphFromSnapshots (enableTransitiveClosure True InterferenceGraph_new)
        [\<lparr>id_s = 1, lon = 0, lat = 0, transmissionRange = 100, microAntennaId = -1\<rparr>,
         \<lparr>id_s = 2, lon = 0, lat = 90 / 111000, transmissionRange = 100, microAntennaId = -1\<rparr>,
         \<lparr>id_s = 3, lon = 0, lat = 180 / 111000, transmissionRange = 100, microAntennaId = -1\<rparr>]
        None"
  have on: "m_computeTransitive (enableTransitiveClosure True InterferenceGraph_new)"
    by (simp add: enableTransitiveClosure_def)
  have ne: "[\<lparr>id_s = 1, lon = 0, lat = 0, transmissionRange = 100, microAntennaId = -1\<rparr>,
         \<lparr>id_s = 2, lon = 0, lat = 90 / 111000, transmissionRange = 100, microAntennaId = -1\<rparr>,
         \<lparr>id_s = 3, lon = 0, lat = 180 / 111000, transmissionRange = 100, microAntennaId = -1\<rparr>]
        \<noteq> []" by simp
  have no: "\<not> usesAntennas None" by (simp add: usesAntennas_def)
  have adj: "m_adjacencyList ?g = [(1, [2]), (2, [3, 1]), (3, [2])]"
    unfolding build_fallback_state(1) [OF ne no]
    by (simp add: initAdjacency_def compareSnapshots_def connectIfInRange_def
        snapshotDistance_same_lon adjInsert_def)
  have key: "map_of (m_adjacencyList ?g) 1 = Some [2]" unfolding adj by simp
  have reach: "bfsReachable [(1, [2]), (2, [3, 1]), (3, [2])] 1 = [3, 2]"
    by (simp add: bfsReachable_def)
  have clo: "map_of (m_transitiveClosure ?g) 1 = Some [3, 2]"
    unfolding closure_build_enabled [OF on] adj reach by simp
  have nb: "getDirectNeighbors ?g 1 = [2]" unfolding getDirectNeighbors_def key by simp
  have built: "?g = ?g \<or> ?g = buildGraph twoVertexRoad (\<lambda>vehicleId. [])
                    (enableTransitiveClosure True InterferenceGraph_new) []"
    by (rule disjI1) (rule refl)
  from closure_is_reachability [OF built on key]
  obtain c where cs: "map_of (m_transitiveClosure ?g) 1 = Some c \<and>
      set c = {j. j \<noteq> 1 \<and> (1, j) \<in> {(a, b). b \<in> set (getDirectNeighbors ?g a)}\<^sup>+} \<and>
      1 \<notin> set c" ..
  then have c: "map_of (m_transitiveClosure ?g) 1 = Some c"
    and s: "set c = {j. j \<noteq> 1 \<and> (1, j) \<in> {(a, b). b \<in> set (getDirectNeighbors ?g a)}\<^sup>+}"
    by (rule conjunct1, rule conjunct2 [THEN conjunct1])
  have "c = [3, 2]" using c clo by simp
  then have "3 \<in> set c" by simp
  then have "3 \<in> {j. j \<noteq> 1 \<and> (1, j) \<in> {(a, b). b \<in> set (getDirectNeighbors ?g a)}\<^sup>+}"
    unfolding s .
  then have "(1, 3) \<in> {(a, b). b \<in> set (getDirectNeighbors ?g a)}\<^sup>+"
    by (simp only: mem_Collect_eq)
  with clo nb show ?thesis by (intro conjI)
qed

end
